theory Spec2Isabelle
  imports Main "HOL-Library.Multiset"
begin

section \<open>Randomness and array helpers\<close>

text \<open>
  \<^verbatim>\<open>Math.random()\<close> is the only source of nondeterminism in the quiz code. It is
  modelled by an arbitrary sequence \<open>rnd\<close> of natural numbers and a counter \<open>c\<close> of the
  draws made so far: the \<open>c\<close>-th evaluation of \<^verbatim>\<open>Math.floor(Math.random() * k)\<close> is
  \<open>rnd c mod k\<close>, an arbitrary index below \<open>k\<close>. Every function that draws takes the
  counter and returns the advanced one; every theorem holds for all \<open>rnd\<close> and \<open>c\<close>.
\<close>

definition random_below :: "(nat \<Rightarrow> nat) \<Rightarrow> nat \<Rightarrow> nat \<Rightarrow> nat" where
  "random_below rnd c k = (if k = 0 then 0 else rnd c mod k)"

text \<open>The destructuring swap \<^verbatim>\<open>[arr[i], arr[j]] = [arr[j], arr[i]]\<close>.\<close>

definition swap :: "'a list \<Rightarrow> nat \<Rightarrow> nat \<Rightarrow> 'a list" where
  "swap arr i j = arr[i := arr ! j, j := arr ! i]"

text \<open>
  The loop of \<^verbatim>\<open>shuffleArray\<close>: \<^verbatim>\<open>for (let i = arr.length - 1; i > 0; i--)\<close>, by
  recursion on the loop variable \<open>i\<close>.
\<close>

fun shuffle_loop :: "(nat \<Rightarrow> nat) \<Rightarrow> nat \<Rightarrow> nat \<Rightarrow> 'a list \<Rightarrow> 'a list \<times> nat" where
  "shuffle_loop rnd c 0 arr = (arr, c)"
| "shuffle_loop rnd c (Suc i) arr =
     (let j = random_below rnd c (Suc i + 1)
      in shuffle_loop rnd (Suc c) i (swap arr (Suc i) j))"

definition shuffleArray :: "(nat \<Rightarrow> nat) \<Rightarrow> nat \<Rightarrow> 'a list \<Rightarrow> 'a list \<times> nat" where
  "shuffleArray rnd c array = shuffle_loop rnd c (length array - 1) array"

definition pickRandomSubset ::
  "(nat \<Rightarrow> nat) \<Rightarrow> nat \<Rightarrow> 'a list \<Rightarrow> nat \<Rightarrow> 'a list \<times> nat" where
  "pickRandomSubset rnd c array n =
     (if length array \<le> n then (array, c)
      else (let (shuffled, c') = shuffleArray rnd c array in (take n shuffled, c')))"

subsection \<open>The same two functions on a store of arrays\<close>

text \<open>
  JavaScript arrays are objects: \<^verbatim>\<open>array.slice()\<close> allocates a new array and the swap
  in the loop writes into it in place. To speak about what the functions do to their
  argument, the store is a list of arrays and a reference is an index into it; a new
  array is appended, so the reference returned by \<open>slice\<close> is the old length.
\<close>

type_synonym 'a store = "'a list list"

definition slice_st :: "'a store \<Rightarrow> nat \<Rightarrow> nat \<Rightarrow> nat \<Rightarrow> 'a store \<times> nat" where
  "slice_st h a lo hi = (h @ [take (hi - lo) (drop lo (h ! a))], length h)"

definition swap_st :: "'a store \<Rightarrow> nat \<Rightarrow> nat \<Rightarrow> nat \<Rightarrow> 'a store" where
  "swap_st h r i j = h[r := (h ! r)[i := h ! r ! j, j := h ! r ! i]]"

fun shuffle_loop_st ::
  "(nat \<Rightarrow> nat) \<Rightarrow> nat \<Rightarrow> nat \<Rightarrow> 'a store \<Rightarrow> nat \<Rightarrow> 'a store \<times> nat" where
  "shuffle_loop_st rnd c 0 h r = (h, c)"
| "shuffle_loop_st rnd c (Suc i) h r =
     (let j = random_below rnd c (Suc i + 1)
      in shuffle_loop_st rnd (Suc c) i (swap_st h r (Suc i) j) r)"

definition shuffleArray_st ::
  "(nat \<Rightarrow> nat) \<Rightarrow> nat \<Rightarrow> 'a store \<Rightarrow> nat \<Rightarrow> nat \<times> 'a store \<times> nat" where
  "shuffleArray_st rnd c h array =
     (let (h1, arr) = slice_st h array 0 (length (h ! array));
          (h2, c') = shuffle_loop_st rnd c (length (h1 ! arr) - 1) h1 arr
      in (arr, h2, c'))"

definition pickRandomSubset_st ::
  "(nat \<Rightarrow> nat) \<Rightarrow> nat \<Rightarrow> 'a store \<Rightarrow> nat \<Rightarrow> nat \<Rightarrow> nat \<times> 'a store \<times> nat" where
  "pickRandomSubset_st rnd c h array n =
     (if length (h ! array) \<le> n
      then (let (h1, r) = slice_st h array 0 (length (h ! array)) in (r, h1, c))
      else (let (shuffled, h1, c') = shuffleArray_st rnd c h array;
                (h2, r) = slice_st h1 shuffled 0 n
            in (r, h2, c')))"

section \<open>JavaScript values\<close>

text \<open>
  A string-valued field that may be \<^verbatim>\<open>null\<close> or missing is a \<open>string option\<close>. A value is
  falsy when it is \<^verbatim>\<open>null\<close>, missing or the empty string; \<^verbatim>\<open>a || b\<close> is \<open>js_or a b\<close>.
\<close>

definition truthy :: "string option \<Rightarrow> bool" where
  "truthy v = (case v of None \<Rightarrow> False | Some s \<Rightarrow> s \<noteq> [])"

definition js_or :: "string option \<Rightarrow> string option \<Rightarrow> string option" where
  "js_or a b = (if truthy a then a else b)"

text \<open>\<^verbatim>\<open>toLowerCase\<close> on the ASCII letters, which is all the licence codes contain.\<close>

definition lower_char :: "char \<Rightarrow> char" where
  "lower_char ch =
     (let n = (of_char ch :: nat) in if 65 \<le> n \<and> n \<le> 90 then char_of (n + 32) else ch)"

definition toLowerCase :: "string \<Rightarrow> string" where
  "toLowerCase s = map lower_char s"

text \<open>\<^verbatim>\<open>s.replace(pat, rep)\<close> with a string pattern: the first occurrence only.\<close>

fun replace_first :: "string \<Rightarrow> string \<Rightarrow> string \<Rightarrow> string" where
  "replace_first pat rep [] = (if pat = [] then rep else [])"
| "replace_first pat rep (x # xs) =
     (if take (length pat) (x # xs) = pat then rep @ drop (length pat) (x # xs)
      else x # replace_first pat rep xs)"

text \<open>\<^verbatim>\<open>s.split(" ")\<close>: the pieces between the separators, empty pieces included.\<close>

fun split_on :: "char \<Rightarrow> string \<Rightarrow> string list" where
  "split_on sep [] = [[]]"
| "split_on sep (x # xs) =
     (if x = sep then [] # split_on sep xs
      else (case split_on sep xs of [] \<Rightarrow> [[x]] | w # ws \<Rightarrow> (x # w) # ws))"

text \<open>Decimal rendering of a number inside a template string.\<close>

fun digits_of :: "nat \<Rightarrow> string" where
  "digits_of n =
     (if n < 10 then [char_of (48 + n)] else digits_of (n div 10) @ [char_of (48 + n mod 10)])"

text \<open>\<^verbatim>\<open>[...new Set(xs)]\<close>: the distinct elements in order of first occurrence.\<close>

fun set_add_all :: "'a list \<Rightarrow> 'a list \<Rightarrow> 'a list" where
  "set_add_all acc [] = acc"
| "set_add_all acc (x # xs) = set_add_all (if x \<in> set acc then acc else acc @ [x]) xs"

definition new_Set :: "'a list \<Rightarrow> 'a list" where
  "new_Set xs = set_add_all [] xs"

section \<open>Data source adapter (app.js)\<close>

definition QUESTIONS_COUNT :: nat where "QUESTIONS_COUNT = 10"
definition OPTIONS_PER_QUESTION :: nat where "OPTIONS_PER_QUESTION = 4"
definition REQUIRE_RESEARCH_GRADE :: bool where "REQUIRE_RESEARCH_GRADE = True"
definition ALLOWED_LICENSES :: "string list" where
  "ALLOWED_LICENSES = [''cc0'', ''cc-by'', ''cc-by-nc'']"
definition GROUP_RANK_PRIORITY :: "string list" where
  "GROUP_RANK_PRIORITY = [''class'', ''phylum'', ''division'']"

text \<open>The raw records of the observations endpoint, with the fields the code reads.\<close>

record raw_taxon =
  taxon_id :: "nat option"
  taxon_name :: "string option"
  preferred_common_name :: "string option"

record raw_photo =
  url :: "string option"
  photo_license_code :: "string option"

record raw_user =
  login :: "string option"

record raw_obs =
  raw_id :: nat
  taxon :: "raw_taxon option"
  photos :: "raw_photo list option"
  quality_grade :: "string option"
  license_code :: "string option"
  user :: "raw_user option"

text \<open>The normalized observation built by \<^verbatim>\<open>filterAndTransform\<close>.\<close>

record observation =
  obsId :: nat
  taxonId :: "nat option"
  photoUrl :: "string option"
  scientificName :: string
  swedishName :: "string option"
  genusName :: string
  familyName :: "string option"
  broadGroup :: "string option"
  observer :: string
  licenseCode :: "string option"
  obsUrl :: string

definition licenseIsAllowed :: "string option \<Rightarrow> bool" where
  "licenseIsAllowed code =
     (case code of
        None \<Rightarrow> False
      | Some s \<Rightarrow> if s = [] then False else toLowerCase s \<in> set ALLOWED_LICENSES)"

definition buildPhotoUrl :: "raw_photo option \<Rightarrow> string option" where
  "buildPhotoUrl photo =
     (case photo of
        None \<Rightarrow> None
      | Some p \<Rightarrow>
          (case url p of
             None \<Rightarrow> None
           | Some u \<Rightarrow> if u = [] then None else Some (replace_first ''square.'' ''large.'' u)))"

text \<open>\<^verbatim>\<open>(o.user && o.user.login) || "unknown"\<close>\<close>

definition observerOf :: "raw_obs \<Rightarrow> string" where
  "observerOf ob =
     (case user ob of
        None \<Rightarrow> ''unknown''
      | Some u \<Rightarrow> (case login u of None \<Rightarrow> ''unknown'' | Some l \<Rightarrow> if l = [] then ''unknown'' else l))"

text \<open>\<^verbatim>\<open>scientificName.split(" ")[0] || scientificName\<close>\<close>

definition genusOf :: "string \<Rightarrow> string" where
  "genusOf sciName =
     (case split_on CHR '' '' sciName of
        [] \<Rightarrow> sciName
      | w # ws \<Rightarrow> if w = [] then sciName else w)"

text \<open>The object literal pushed onto \<^verbatim>\<open>result\<close>.\<close>

definition makeObservation ::
  "raw_obs \<Rightarrow> raw_taxon \<Rightarrow> raw_photo \<Rightarrow> string option \<Rightarrow> string \<Rightarrow> observation" where
  "makeObservation ob tx photo pUrl sciName =
     \<lparr> obsId = raw_id ob,
       taxonId = taxon_id tx,
       photoUrl = pUrl,
       scientificName = sciName,
       swedishName = js_or (preferred_common_name tx) None,
       genusName = genusOf sciName,
       familyName = None,
       broadGroup = None,
       observer = observerOf ob,
       licenseCode = js_or (photo_license_code photo) (js_or (license_code ob) None),
       obsUrl = ''https://www.inaturalist.org/observations/'' @ digits_of (raw_id ob) \<rparr>"

text \<open>
  The body of the loop of \<^verbatim>\<open>filterAndTransform\<close> for one raw record: \<open>None\<close> is a
  \<^verbatim>\<open>continue\<close>, \<open>Some r\<close> is \<^verbatim>\<open>result.push(r)\<close>.
\<close>

definition transformObs :: "raw_obs \<Rightarrow> observation option" where
  "transformObs ob =
     (case taxon ob of
        None \<Rightarrow> None
      | Some tx \<Rightarrow>
          (let phs = (case photos ob of None \<Rightarrow> [] | Some ps \<Rightarrow> ps) in
           if phs = [] then None
           else if REQUIRE_RESEARCH_GRADE \<and> quality_grade ob \<noteq> Some ''research'' then None
           else if truthy (license_code ob) \<and> \<not> licenseIsAllowed (license_code ob) then None
           else
             (case find (\<lambda>p. licenseIsAllowed (photo_license_code p)) phs of
                None \<Rightarrow> None
              | Some photo \<Rightarrow>
                  (let pUrl = buildPhotoUrl (Some photo) in
                   if \<not> truthy pUrl then None
                   else
                     (let sciName = (case taxon_name tx of None \<Rightarrow> [] | Some n \<Rightarrow> n) in
                      if sciName = [] then None
                      else Some (makeObservation ob tx photo pUrl sciName))))))"

fun filterAndTransform :: "raw_obs list \<Rightarrow> observation list" where
  "filterAndTransform [] = []"
| "filterAndTransform (ob # rawObs) =
     (case transformObs ob of
        None \<Rightarrow> filterAndTransform rawObs
      | Some r \<Rightarrow> r # filterAndTransform rawObs)"

text \<open>The conditions of the adapter's contract, said on the raw record.\<close>

definition hasLicensedPhoto :: "raw_obs \<Rightarrow> bool" where
  "hasLicensedPhoto ob =
     (case photos ob of
        None \<Rightarrow> False
      | Some ps \<Rightarrow> list_ex (\<lambda>p. licenseIsAllowed (photo_license_code p)) ps)"

definition obsLicenseDisallowed :: "raw_obs \<Rightarrow> bool" where
  "obsLicenseDisallowed ob \<longleftrightarrow> truthy (license_code ob) \<and> \<not> licenseIsAllowed (license_code ob)"

definition firstToken :: "string \<Rightarrow> string" where
  "firstToken s = takeWhile (\<lambda>ch. ch \<noteq> CHR '' '') s"

section \<open>Taxonomy enrichment (app.js)\<close>

text \<open>The records of the taxa endpoint, and what one request can come to.\<close>

record ancestor =
  a_rank :: string
  a_name :: string

record taxon_info =
  t_id :: nat
  t_rank :: string
  t_name :: string
  t_ancestors :: "ancestor list option"

text \<open>
  \<open>FetchRejected\<close>: \<^verbatim>\<open>await fetch(url)\<close> throws. \<open>Response ok body\<close>: it resolves with
  \<^verbatim>\<open>res.ok = ok\<close>; \<open>body\<close> is what \<^verbatim>\<open>await res.json()\<close> does, throwing (\<open>JsonRejected\<close>) or
  giving an object whose \<^verbatim>\<open>results\<close> field may be absent. The network is a function from
  the requested chunk of ids (the URL is built from nothing else) to such an outcome.
\<close>

datatype json_body = JsonRejected | JsonData "taxon_info list option"

datatype fetch_outcome = FetchRejected | Response bool json_body

datatype chunk_error = FetchError | JsonError

type_synonym taxa_maps = "(nat \<rightharpoonup> string) \<times> (nat \<rightharpoonup> string)"

definition familyOf :: "taxon_info \<Rightarrow> string option" where
  "familyOf t =
     (if t_rank t = ''family'' then Some (t_name t)
      else (case t_ancestors t of
              None \<Rightarrow> None
            | Some ancs \<Rightarrow>
                (case find (\<lambda>a. a_rank a = ''family'') ancs of
                   None \<Rightarrow> None
                 | Some fam \<Rightarrow> Some (a_name fam))))"

text \<open>The loop over \<^verbatim>\<open>CONFIG.GROUP_RANK_PRIORITY\<close> with its \<^verbatim>\<open>break\<close>.\<close>

fun firstRank :: "string list \<Rightarrow> ancestor list \<Rightarrow> string option" where
  "firstRank [] ancs = None"
| "firstRank (rank # ranks) ancs =
     (case find (\<lambda>a. a_rank a = rank) ancs of
        Some anc \<Rightarrow> Some (a_name anc)
      | None \<Rightarrow> firstRank ranks ancs)"

definition broadGroupOf :: "taxon_info \<Rightarrow> string option" where
  "broadGroupOf t =
     (case t_ancestors t of None \<Rightarrow> None | Some ancs \<Rightarrow> firstRank GROUP_RANK_PRIORITY ancs)"

definition recordTaxon :: "taxa_maps \<Rightarrow> taxon_info \<Rightarrow> taxa_maps" where
  "recordTaxon m t =
     (let familyMap = fst m; broadGroupMap = snd m;
          famName = familyOf t; bGroup = broadGroupOf t
      in ((if truthy famName then familyMap(t_id t := famName) else familyMap),
          (if truthy bGroup then broadGroupMap(t_id t := bGroup) else broadGroupMap)))"

text \<open>
  The \<^verbatim>\<open>try\<close> block for one chunk: \<open>Inl\<close> is an exception thrown inside it, \<open>Inr\<close> the maps
  after it (unchanged by the \<^verbatim>\<open>continue\<close> on a response that is not OK).
\<close>

definition tryChunk :: "(nat list \<Rightarrow> fetch_outcome) \<Rightarrow> nat list \<Rightarrow> taxa_maps \<Rightarrow> chunk_error + taxa_maps" where
  "tryChunk fetch chunk m =
     (case fetch chunk of
        FetchRejected \<Rightarrow> Inl FetchError
      | Response ok body \<Rightarrow>
          if \<not> ok then Inr m
          else (case body of
                  JsonRejected \<Rightarrow> Inl JsonError
                | JsonData results \<Rightarrow>
                    Inr (foldl recordTaxon m (case results of None \<Rightarrow> [] | Some taxa \<Rightarrow> taxa))))"

definition chunkSize :: nat where "chunkSize = 30"

text \<open>
  \<^verbatim>\<open>for (let i = 0; i < ids.length; i += chunkSize)\<close>. The state is the two maps and the
  list of chunks requested so far; the \<^verbatim>\<open>catch\<close> only logs, so an exception leaves the
  maps as they were and the loop goes on.
\<close>

function enrichLoop ::
  "(nat list \<Rightarrow> fetch_outcome) \<Rightarrow> nat list \<Rightarrow> nat \<Rightarrow> taxa_maps \<times> nat list list
     \<Rightarrow> taxa_maps \<times> nat list list" where
  "enrichLoop fetch ids i st =
     (if i < length ids then
        (let chunk = take chunkSize (drop i ids);
             m = (case tryChunk fetch chunk (fst st) of Inl err \<Rightarrow> fst st | Inr m' \<Rightarrow> m')
         in enrichLoop fetch ids (i + chunkSize) (m, snd st @ [chunk]))
      else st)"
  by pat_completeness auto
termination
  by (relation "measure (\<lambda>(fetch, ids, i, st). length ids - i)") (auto simp: chunkSize_def)

definition lookupId :: "(nat \<rightharpoonup> string) \<Rightarrow> nat option \<Rightarrow> string option" where
  "lookupId m k = (case k of None \<Rightarrow> None | Some i \<Rightarrow> js_or (m i) None)"

text \<open>
  \<^verbatim>\<open>enrichWithTaxaData\<close> returns nothing and updates the observations in place; the model
  returns the updated list together with the chunks it requested.
\<close>

definition enrichWithTaxaData ::
  "(nat list \<Rightarrow> fetch_outcome) \<Rightarrow> observation list \<Rightarrow> observation list \<times> nat list list" where
  "enrichWithTaxaData fetch obsList =
     (let ids = new_Set (List.map_filter taxonId obsList) in
      if ids = [] then (obsList, [])
      else
        (let (m, requests) = enrichLoop fetch ids 0 ((Map.empty, Map.empty), [])
         in (map (\<lambda>ob. ob\<lparr> familyName := lookupId (fst m) (taxonId ob),
                            broadGroup := lookupId (snd m) (taxonId ob) \<rparr>) obsList,
             requests)))"

text \<open>
  The contract of the enrichment, said without the loop: the chunks of a list of ids, the
  taxa a chunk contributes (none when its request fails), and an observation enriched
  from the two maps.
\<close>

definition chunkTaxa :: "(nat list \<Rightarrow> fetch_outcome) \<Rightarrow> nat list \<Rightarrow> taxon_info list" where
  "chunkTaxa fetch chunk =
     (case fetch chunk of
        Response ok (JsonData (Some taxa)) \<Rightarrow> if ok then taxa else []
      | _ \<Rightarrow> [])"

definition chunkFails :: "(nat list \<Rightarrow> fetch_outcome) \<Rightarrow> nat list \<Rightarrow> bool" where
  "chunkFails fetch chunk =
     (case fetch chunk of
        FetchRejected \<Rightarrow> True
      | Response ok body \<Rightarrow> \<not> ok \<or> body = JsonRejected)"

function chunksFrom :: "nat list \<Rightarrow> nat \<Rightarrow> nat list list" where
  "chunksFrom ids i =
     (if i < length ids then take chunkSize (drop i ids) # chunksFrom ids (i + chunkSize) else [])"
  by pat_completeness auto
termination
  by (relation "measure (\<lambda>(ids, i). length ids - i)") (auto simp: chunkSize_def)

definition taxonIds :: "observation list \<Rightarrow> nat list" where
  "taxonIds obsList = new_Set (List.map_filter taxonId obsList)"

definition resolvedTaxa :: "(nat list \<Rightarrow> fetch_outcome) \<Rightarrow> observation list \<Rightarrow> taxon_info list" where
  "resolvedTaxa fetch obsList = concat (map (chunkTaxa fetch) (chunksFrom (taxonIds obsList) 0))"

definition enrichedWith :: "taxa_maps \<Rightarrow> observation \<Rightarrow> observation" where
  "enrichedWith m ob = ob\<lparr> familyName := lookupId (fst m) (taxonId ob),
                            broadGroup := lookupId (snd m) (taxonId ob) \<rparr>"

section \<open>Question generator (app.js)\<close>

datatype level = Species | Genus | Family

text \<open>
  \<^verbatim>\<open>getGroupLabelForObs\<close> reads the global \<^verbatim>\<open>currentLevel\<close>; here the level is a
  parameter. The \<^verbatim>\<open>default\<close> branch of the switch is the species branch.
\<close>

definition getGroupLabelForObs :: "level \<Rightarrow> observation \<Rightarrow> string option" where
  "getGroupLabelForObs lvl ob =
     (case lvl of
        Genus \<Rightarrow> js_or (Some (genusName ob)) (Some (scientificName ob))
      | Family \<Rightarrow> js_or (familyName ob) None
      | Species \<Rightarrow> Some (scientificName ob))"

record quiz_group =
  label :: string
  obs :: observation
  g_broadGroup :: "string option"

record question =
  correct :: observation
  options :: "observation list"

text \<open>
  \<^verbatim>\<open>groupsMap\<close> is a \<^verbatim>\<open>Map\<close>, which keeps its entries in insertion order; it is the list
  of its values. One step of the collapsing loop:
\<close>

definition addToGroups :: "level \<Rightarrow> quiz_group list \<Rightarrow> observation \<Rightarrow> quiz_group list" where
  "addToGroups lvl groupsMap ob =
     (case getGroupLabelForObs lvl ob of
        None \<Rightarrow> groupsMap
      | Some lab \<Rightarrow>
          if lab = [] then groupsMap
          else if lab \<in> label ` set groupsMap then groupsMap
          else groupsMap @ [\<lparr> label = lab, obs = ob, g_broadGroup = js_or (broadGroup ob) None \<rparr>])"

definition collapseGroups :: "level \<Rightarrow> observation list \<Rightarrow> quiz_group list" where
  "collapseGroups lvl obsList = foldl (addToGroups lvl) [] obsList"

definition sameBroadCandidates :: "quiz_group list \<Rightarrow> quiz_group \<Rightarrow> quiz_group list" where
  "sameBroadCandidates groups g =
     filter (\<lambda>x. label x \<noteq> label g \<and> truthy (g_broadGroup g) \<and> g_broadGroup x = g_broadGroup g)
       groups"

definition otherGroups :: "quiz_group list \<Rightarrow> quiz_group \<Rightarrow> quiz_group list" where
  "otherGroups groups g = filter (\<lambda>x. label x \<noteq> label g) groups"

definition candidateGroups :: "quiz_group list \<Rightarrow> quiz_group \<Rightarrow> quiz_group list" where
  "candidateGroups groups g =
     (if length (sameBroadCandidates groups g) < OPTIONS_PER_QUESTION - 1
      then otherGroups groups g
      else sameBroadCandidates groups g)"

text \<open>
  The body of \<^verbatim>\<open>for (const g of chosenGroups)\<close>: the distractors drawn for \<open>g\<close> and the
  question built from them.
\<close>

definition distractorGroups ::
  "(nat \<Rightarrow> nat) \<Rightarrow> nat \<Rightarrow> quiz_group list \<Rightarrow> quiz_group \<Rightarrow> quiz_group list \<times> nat" where
  "distractorGroups rnd c groups g =
     pickRandomSubset rnd c (candidateGroups groups g) (OPTIONS_PER_QUESTION - 1)"

definition buildQuestion ::
  "(nat \<Rightarrow> nat) \<Rightarrow> nat \<Rightarrow> quiz_group list \<Rightarrow> quiz_group \<Rightarrow> question \<times> nat" where
  "buildQuestion rnd c groups g =
     (let (distractors, c1) = distractorGroups rnd c groups g;
          (shuffled, c2) = shuffleArray rnd c1 (g # distractors)
      in (\<lparr> correct = obs g, options = map obs shuffled \<rparr>, c2))"

fun buildQuestions ::
  "(nat \<Rightarrow> nat) \<Rightarrow> nat \<Rightarrow> quiz_group list \<Rightarrow> quiz_group list \<Rightarrow> question list" where
  "buildQuestions rnd c groups [] = []"
| "buildQuestions rnd c groups (g # chosen) =
     (let (q, c') = buildQuestion rnd c groups g in q # buildQuestions rnd c' groups chosen)"

definition chosenGroups :: "(nat \<Rightarrow> nat) \<Rightarrow> nat \<Rightarrow> quiz_group list \<Rightarrow> quiz_group list \<times> nat" where
  "chosenGroups rnd c groups =
     pickRandomSubset rnd c groups (min QUESTIONS_COUNT (length groups))"

definition buildQuizQuestions ::
  "level \<Rightarrow> (nat \<Rightarrow> nat) \<Rightarrow> nat \<Rightarrow> observation list \<Rightarrow> question list" where
  "buildQuizQuestions lvl rnd c obsList =
     (let groups = collapseGroups lvl obsList in
      if groups = [] then []
      else (let (chosen, c') = chosenGroups rnd c groups
            in buildQuestions rnd c' groups chosen))"

text \<open>
  The label the renderer puts on an answer button and compares on a click:
  \<^verbatim>\<open>getGroupLabelForObs(opt) || opt.scientificName\<close>.
\<close>

definition optionLabel :: "level \<Rightarrow> observation \<Rightarrow> string" where
  "optionLabel lvl ob =
     (case getGroupLabelForObs lvl ob of
        None \<Rightarrow> scientificName ob
      | Some lab \<Rightarrow> if lab = [] then scientificName ob else lab)"

text \<open>
  The number of distinct groups at a level, said without the loop: the set of non-empty
  labels that occur among the observations.
\<close>

definition groupLabels :: "level \<Rightarrow> observation list \<Rightarrow> string set" where
  "groupLabels lvl obsList =
     set (filter (\<lambda>l. l \<noteq> []) (List.map_filter (getGroupLabelForObs lvl) obsList))"

text \<open>The invariant of the collapsing loop.\<close>

definition groupsOk :: "level \<Rightarrow> observation list \<Rightarrow> quiz_group list \<Rightarrow> bool" where
  "groupsOk lvl xs gs \<longleftrightarrow>
     distinct (map label gs) \<and>
     (\<forall>g\<in>set gs. label g \<noteq> [] \<and> getGroupLabelForObs lvl (obs g) = Some (label g) \<and>
        obs g \<in> set xs \<and> g_broadGroup g = js_or (broadGroup (obs g)) None)"

section \<open>Vocabulary-based question builders (vocab quiz)\<close>

text \<open>
  The entries of the vocabulary files and the lists derived from them. \<^verbatim>\<open>vocabByGroup\<close>,
  \<^verbatim>\<open>genusVocabByGroup\<close> and \<^verbatim>\<open>familyVocabByGroup\<close> are objects read with
  \<^verbatim>\<open>Object.entries\<close>: lists of pairs of a group key and a list.
\<close>

record example_observation =
  ex_obsId :: "nat option"
  ex_photoUrl :: "string option"
  ex_observer :: "string option"
  ex_licenseCode :: "string option"
  ex_obsUrl :: "string option"

record species_entry =
  sp_taxonId :: nat
  sp_scientificName :: string
  sp_swedishName :: "string option"
  sp_genusName :: "string option"
  sp_familyName :: "string option"
  sp_familySwedishName :: "string option"
  exampleObservation :: "example_observation option"

record genus_entry =
  gen_genusName :: string
  gen_swedishName :: "string option"
  gen_representative :: species_entry

record family_entry =
  fam_familyName :: string
  fam_swedishName :: "string option"
  fam_representative :: species_entry
  useExampleSpeciesName :: bool

record vocab_option =
  opt_key :: string
  labelSci :: string
  labelSwe :: "string option"

record vocab_correct =
  answerKey :: string
  c_labelSci :: string
  c_labelSwe :: "string option"
  c_obsId :: "nat option"
  c_photoUrl :: "string option"
  c_observer :: string
  c_licenseCode :: "string option"
  c_obsUrl :: string
  groupKey :: string

record vocab_question =
  v_correct :: vocab_correct
  v_options :: "vocab_option list"

definition MAX_ATTEMPTS :: nat where "MAX_ATTEMPTS = 200"

definition neededDistractors :: nat where "neededDistractors = OPTIONS_PER_QUESTION - 1"

subsection \<open>The derived genus and family vocabularies\<close>

text \<open>
  \<^verbatim>\<open>buildGenusVocabFromSpecies\<close> and \<^verbatim>\<open>buildFamilyVocabFromSpecies\<close>: for each group, a
  \<^verbatim>\<open>Map\<close> from name to entry filled in the order of the species, the first species of
  a name being its representative.
\<close>

definition addGenus :: "genus_entry list \<Rightarrow> species_entry \<Rightarrow> genus_entry list" where
  "addGenus genusMap sp =
     (case sp_genusName sp of
        None \<Rightarrow> genusMap
      | Some g \<Rightarrow>
          if g = [] then genusMap
          else if g \<in> gen_genusName ` set genusMap then genusMap
          else genusMap @ [\<lparr> gen_genusName = g,
                               gen_swedishName = js_or (sp_swedishName sp) None,
                               gen_representative = sp \<rparr>])"

definition buildGenusVocabFromSpecies ::
  "(string \<times> species_entry list) list \<Rightarrow> (string \<times> genus_entry list) list" where
  "buildGenusVocabFromSpecies vocabByGroup =
     map (\<lambda>(gk, speciesList). (gk, foldl addGenus [] speciesList)) vocabByGroup"

definition addFamily :: "family_entry list \<Rightarrow> species_entry \<Rightarrow> family_entry list" where
  "addFamily familyMap sp =
     (case sp_familyName sp of
        None \<Rightarrow> familyMap
      | Some fam \<Rightarrow>
          if fam = [] then familyMap
          else if fam \<in> fam_familyName ` set familyMap then familyMap
          else familyMap @ [\<lparr> fam_familyName = fam,
                                fam_swedishName =
                                  js_or (sp_familySwedishName sp) (js_or (sp_swedishName sp) None),
                                fam_representative = sp,
                                useExampleSpeciesName = (\<not> truthy (sp_familySwedishName sp)) \<rparr>])"

definition buildFamilyVocabFromSpecies ::
  "(string \<times> species_entry list) list \<Rightarrow> (string \<times> family_entry list) list" where
  "buildFamilyVocabFromSpecies vocabByGroup =
     map (\<lambda>(gk, speciesList). (gk, foldl addFamily [] speciesList)) vocabByGroup"

subsection \<open>The sampling loop\<close>

text \<open>
  The three builders run the same loop,
  \<^verbatim>\<open>while (questions.length < CONFIG.QUESTIONS_COUNT && attempts < MAX_ATTEMPTS)\<close>, around
  different bodies. \<open>body c\<close> is one pass of the body started with the draw counter at
  \<open>c\<close>: \<open>None\<close> when the pass ends in a \<^verbatim>\<open>continue\<close>, \<open>Some q\<close> when it ends in
  \<^verbatim>\<open>questions.push(q)\<close>. The loop returns the questions and the number of attempts made.
\<close>

function attemptLoop ::
  "(nat \<Rightarrow> 'q option \<times> nat) \<Rightarrow> 'q list \<times> nat \<times> nat \<Rightarrow> 'q list \<times> nat" where
  "attemptLoop body (questions, attempts, c) =
     (if length questions < QUESTIONS_COUNT \<and> attempts < MAX_ATTEMPTS then
        (case body c of
           (None, c') \<Rightarrow> attemptLoop body (questions, attempts + 1, c')
         | (Some q, c') \<Rightarrow> attemptLoop body (questions @ [q], attempts + 1, c'))
      else (questions, attempts))"
  by pat_completeness auto
termination
  by (relation "measure (\<lambda>(body, questions, attempts, c). MAX_ATTEMPTS - attempts)") auto

text \<open>The Swedish word for "unknown" used for a missing observer, as UTF-8 bytes.\<close>

definition unknownObserver :: string where
  "unknownObserver = ''ok'' @ [CHR 0xC3, CHR 0xA4] @ ''nd''"

text \<open>The fields copied from the example observation into \<^verbatim>\<open>correct\<close>.\<close>

definition correctOf ::
  "string \<Rightarrow> string \<Rightarrow> string option \<Rightarrow> example_observation \<Rightarrow> string \<Rightarrow> vocab_correct" where
  "correctOf k sci swe ex gk =
     \<lparr> answerKey = k, c_labelSci = sci, c_labelSwe = swe,
       c_obsId = ex_obsId ex, c_photoUrl = ex_photoUrl ex,
       c_observer = (case ex_observer ex of
                       None \<Rightarrow> unknownObserver
                     | Some w \<Rightarrow> if w = [] then unknownObserver else w),
       c_licenseCode = js_or (ex_licenseCode ex) None,
       c_obsUrl = (case ex_obsUrl ex of None \<Rightarrow> ''#'' | Some u \<Rightarrow> if u = [] then ''#'' else u),
       groupKey = gk \<rparr>"

subsection \<open>Species level\<close>

definition speciesOption :: "species_entry \<Rightarrow> vocab_option" where
  "speciesOption e =
     \<lparr> opt_key = digits_of (sp_taxonId e), labelSci = sp_scientificName e,
       labelSwe = sp_swedishName e \<rparr>"

definition speciesAttempt ::
  "(string \<times> species_entry list) list \<Rightarrow> (nat \<Rightarrow> nat) \<Rightarrow> nat \<Rightarrow> vocab_question option \<times> nat" where
  "speciesAttempt availableGroups rnd c =
     (let (gk, list) = availableGroups ! random_below rnd c (length availableGroups);
          c1 = c + 1
      in if length list \<le> neededDistractors then (None, c1)
         else
           (let correctEntry = list ! random_below rnd c1 (length list);
                c2 = c1 + 1
            in case exampleObservation correctEntry of
                 None \<Rightarrow> (None, c2)
               | Some ex \<Rightarrow>
                   if \<not> truthy (ex_photoUrl ex) then (None, c2)
                   else
                     (let pool = filter (\<lambda>s. sp_taxonId s \<noteq> sp_taxonId correctEntry) list in
                      if length pool < neededDistractors then (None, c2)
                      else
                        (let (distractorEntries, c3) = pickRandomSubset rnd c2 pool neededDistractors;
                             opts = speciesOption correctEntry # map speciesOption distractorEntries;
                             (shuffled, c4) = shuffleArray rnd c3 opts
                         in (Some \<lparr> v_correct =
                                      correctOf (digits_of (sp_taxonId correctEntry))
                                        (sp_scientificName correctEntry)
                                        (sp_swedishName correctEntry) ex gk,
                                    v_options = shuffled \<rparr>,
                             c4)))))"

definition buildSpeciesQuizQuestionsFromVocab ::
  "(string \<times> species_entry list) list \<Rightarrow> (nat \<Rightarrow> nat) \<Rightarrow> nat \<Rightarrow> vocab_question list \<times> nat" where
  "buildSpeciesQuizQuestionsFromVocab vocabByGroup rnd c =
     (let availableGroups = filter (\<lambda>(k, list). length list > neededDistractors) vocabByGroup in
      if availableGroups = [] then ([], 0)
      else attemptLoop (speciesAttempt availableGroups rnd) ([], 0, c))"

subsection \<open>Genus level\<close>

definition genusOption :: "genus_entry \<Rightarrow> vocab_option" where
  "genusOption g = \<lparr> opt_key = gen_genusName g, labelSci = gen_genusName g, labelSwe = None \<rparr>"

definition genusAttempt ::
  "(string \<times> genus_entry list) list \<Rightarrow> (nat \<Rightarrow> nat) \<Rightarrow> nat \<Rightarrow> vocab_question option \<times> nat" where
  "genusAttempt availableGroups rnd c =
     (let (gk, genusList) = availableGroups ! random_below rnd c (length availableGroups);
          c1 = c + 1
      in if length genusList \<le> neededDistractors then (None, c1)
         else
           (let correctGenus = genusList ! random_below rnd c1 (length genusList);
                c2 = c1 + 1
            in case exampleObservation (gen_representative correctGenus) of
                 None \<Rightarrow> (None, c2)
               | Some ex \<Rightarrow>
                   if \<not> truthy (ex_photoUrl ex) then (None, c2)
                   else
                     (let pool = filter (\<lambda>g. gen_genusName g \<noteq> gen_genusName correctGenus) genusList in
                      if length pool < neededDistractors then (None, c2)
                      else
                        (let (distractorGenera, c3) = pickRandomSubset rnd c2 pool neededDistractors;
                             opts = genusOption correctGenus # map genusOption distractorGenera;
                             (shuffled, c4) = shuffleArray rnd c3 opts
                         in (Some \<lparr> v_correct =
                                      correctOf (gen_genusName correctGenus)
                                        (gen_genusName correctGenus)
                                        (gen_swedishName correctGenus) ex gk,
                                    v_options = shuffled \<rparr>,
                             c4)))))"

definition buildGenusQuizQuestionsFromVocab ::
  "(string \<times> genus_entry list) list \<Rightarrow> (nat \<Rightarrow> nat) \<Rightarrow> nat \<Rightarrow> vocab_question list \<times> nat" where
  "buildGenusQuizQuestionsFromVocab genusVocabByGroup rnd c =
     (let availableGroups = filter (\<lambda>(k, list). length list > neededDistractors) genusVocabByGroup in
      if availableGroups = [] then ([], 0)
      else attemptLoop (genusAttempt availableGroups rnd) ([], 0, c))"

subsection \<open>Family level\<close>

text \<open>\<^verbatim>\<open>f.useExampleSpeciesName && swe ? `t.ex. ${swe}` : swe\<close>\<close>

definition formattedSwe :: "family_entry \<Rightarrow> string option" where
  "formattedSwe f =
     (if useExampleSpeciesName f \<and> truthy (fam_swedishName f)
      then map_option (\<lambda>w. ''t.ex. '' @ w) (fam_swedishName f)
      else fam_swedishName f)"

definition familyOption :: "family_entry \<Rightarrow> vocab_option" where
  "familyOption f =
     \<lparr> opt_key = fam_familyName f, labelSci = fam_familyName f, labelSwe = formattedSwe f \<rparr>"

definition familyAttempt ::
  "(string \<times> family_entry list) list \<Rightarrow> (nat \<Rightarrow> nat) \<Rightarrow> nat \<Rightarrow> vocab_question option \<times> nat" where
  "familyAttempt availableGroups rnd c =
     (let (gk, familyList) = availableGroups ! random_below rnd c (length availableGroups);
          c1 = c + 1
      in if length familyList \<le> neededDistractors then (None, c1)
         else
           (let correctFamily = familyList ! random_below rnd c1 (length familyList);
                c2 = c1 + 1
            in case exampleObservation (fam_representative correctFamily) of
                 None \<Rightarrow> (None, c2)
               | Some ex \<Rightarrow>
                   if \<not> truthy (ex_photoUrl ex) then (None, c2)
                   else
                     (let pool = filter (\<lambda>f. fam_familyName f \<noteq> fam_familyName correctFamily)
                                   familyList in
                      if length pool < neededDistractors then (None, c2)
                      else
                        (let (distractorFamilies, c3) = pickRandomSubset rnd c2 pool neededDistractors;
                             opts = familyOption correctFamily # map familyOption distractorFamilies;
                             (shuffled, c4) = shuffleArray rnd c3 opts
                         in (Some \<lparr> v_correct =
                                      correctOf (fam_familyName correctFamily)
                                        (fam_familyName correctFamily)
                                        (fam_swedishName correctFamily) ex gk,
                                    v_options = shuffled \<rparr>,
                             c4)))))"

definition buildFamilyQuizQuestionsFromVocab ::
  "(string \<times> family_entry list) list \<Rightarrow> (nat \<Rightarrow> nat) \<Rightarrow> nat \<Rightarrow> vocab_question list \<times> nat" where
  "buildFamilyQuizQuestionsFromVocab familyVocabByGroup rnd c =
     (let availableGroups = filter (\<lambda>(k, list). length list > neededDistractors) familyVocabByGroup in
      if availableGroups = [] then ([], 0)
      else attemptLoop (familyAttempt availableGroups rnd) ([], 0, c))"

section \<open>Question generator of the hybrid quiz\<close>

text \<open>
  The second script of \<^verbatim>\<open>src/unnamed/part_000\<close> is a later variant of app.js. Its
  observations carry a \<^verbatim>\<open>didacticGroup\<close>; at genus level the distractors come from
  external vocabularies and are objects without photo or ids; its
  \<^verbatim>\<open>buildQuizQuestions\<close> walks through the shuffled groups and skips a group with a
  \<^verbatim>\<open>continue\<close> instead of falling back.
\<close>

record hybrid_observation =
  h_obsId :: "nat option"
  h_taxonId :: "nat option"
  h_photoUrl :: "string option"
  h_scientificName :: string
  h_swedishName :: "string option"
  h_genusName :: string
  h_familyName :: "string option"
  h_broadGroup :: "string option"
  h_didacticGroup :: "string option"
  h_observer :: string
  h_licenseCode :: "string option"
  h_obsUrl :: "string option"

record external_entry =
  ext_scientificName :: string
  ext_swedishName :: "string option"

record hybrid_group =
  h_label :: string
  h_obs :: hybrid_observation
  hg_broadGroup :: "string option"
  hg_didacticGroup :: "string option"

record hybrid_question =
  h_correct :: hybrid_observation
  h_options :: "hybrid_observation list"

definition getGroupLabelForObsH :: "level \<Rightarrow> hybrid_observation \<Rightarrow> string option" where
  "getGroupLabelForObsH lvl ob =
     (case lvl of
        Genus \<Rightarrow> js_or (Some (h_genusName ob)) (Some (h_scientificName ob))
      | Family \<Rightarrow> js_or (h_familyName ob) None
      | Species \<Rightarrow> Some (h_scientificName ob))"

definition addToGroupsH :: "level \<Rightarrow> hybrid_group list \<Rightarrow> hybrid_observation \<Rightarrow> hybrid_group list" where
  "addToGroupsH lvl groupsMap ob =
     (case getGroupLabelForObsH lvl ob of
        None \<Rightarrow> groupsMap
      | Some lab \<Rightarrow>
          if lab = [] then groupsMap
          else if lab \<in> h_label ` set groupsMap then groupsMap
          else groupsMap @ [\<lparr> h_label = lab, h_obs = ob,
                                hg_broadGroup = js_or (h_broadGroup ob) None,
                                hg_didacticGroup = js_or (h_didacticGroup ob) None \<rparr>])"

definition collapseGroupsH :: "level \<Rightarrow> hybrid_observation list \<Rightarrow> hybrid_group list" where
  "collapseGroupsH lvl obsList = foldl (addToGroupsH lvl) [] obsList"

text \<open>The object built for an external genus used as a distractor.\<close>

definition externalObs :: "string option \<Rightarrow> string option \<Rightarrow> external_entry \<Rightarrow> hybrid_observation" where
  "externalObs correctBroad didactic v =
     \<lparr> h_obsId = None, h_taxonId = None, h_photoUrl = None,
       h_scientificName = ext_scientificName v,
       h_swedishName = js_or (ext_swedishName v) None,
       h_genusName = ext_scientificName v,
       h_familyName = None, h_broadGroup = correctBroad, h_didacticGroup = didactic,
       h_observer = ''external'', h_licenseCode = None, h_obsUrl = None \<rparr>"

definition projectCandidates :: "hybrid_group list \<Rightarrow> hybrid_group \<Rightarrow> hybrid_group list" where
  "projectCandidates groups g =
     filter (\<lambda>x. h_label x \<noteq> h_label g \<and> hg_broadGroup x = hg_broadGroup g) groups"

text \<open>
  The body of \<^verbatim>\<open>for (const g of shuffleArray(groups))\<close> after the \<^verbatim>\<open>break\<close> test:
  \<open>None\<close> is a \<^verbatim>\<open>continue\<close>, \<open>Some q\<close> is \<^verbatim>\<open>questions.push(q)\<close>.
\<close>

definition hybridQuestion ::
  "level \<Rightarrow> (string \<rightharpoonup> external_entry list) \<Rightarrow> (nat \<Rightarrow> nat) \<Rightarrow> nat \<Rightarrow> hybrid_group list
     \<Rightarrow> hybrid_group \<Rightarrow> hybrid_question option \<times> nat" where
  "hybridQuestion lvl externalDistractors rnd c groups g =
     (let correctObs = h_obs g; correctBroad = hg_broadGroup g; didactic = hg_didacticGroup g in
      if \<not> truthy correctBroad then (None, c)
      else if lvl = Genus then
        (case didactic of
           None \<Rightarrow> (None, c)
         | Some dg \<Rightarrow>
             if dg = [] then (None, c)
             else
               (case externalDistractors dg of
                  None \<Rightarrow> (None, c)
                | Some vocabList \<Rightarrow>
                    if vocabList = [] then (None, c)
                    else
                      (case getGroupLabelForObsH lvl correctObs of
                         None \<Rightarrow> (None, c)
                       | Some correctGenusLabel \<Rightarrow>
                           if correctGenusLabel = [] then (None, c)
                           else
                             (let vocabClean =
                                    filter (\<lambda>v. ext_scientificName v \<noteq> correctGenusLabel) vocabList
                              in if length vocabClean < neededDistractors then (None, c)
                                 else
                                   (let (chosenVocab, c1) =
                                          pickRandomSubset rnd c vocabClean neededDistractors;
                                        distractorObs =
                                          map (externalObs correctBroad didactic) chosenVocab;
                                        (opts, c2) = shuffleArray rnd c1 (correctObs # distractorObs)
                                    in (Some \<lparr> h_correct = correctObs, h_options = opts \<rparr>, c2))))))
      else
        (let candidates = projectCandidates groups g in
         if length candidates < neededDistractors then (None, c)
         else
           (let (distractors, c1) = pickRandomSubset rnd c (map h_obs candidates) neededDistractors;
                (opts, c2) = shuffleArray rnd c1 (correctObs # distractors)
            in (Some \<lparr> h_correct = correctObs, h_options = opts \<rparr>, c2))))"

fun hybridLoop ::
  "level \<Rightarrow> (string \<rightharpoonup> external_entry list) \<Rightarrow> (nat \<Rightarrow> nat) \<Rightarrow> hybrid_group list
     \<Rightarrow> hybrid_group list \<Rightarrow> hybrid_question list \<Rightarrow> nat \<Rightarrow> hybrid_question list" where
  "hybridLoop lvl ext rnd groups [] questions c = questions"
| "hybridLoop lvl ext rnd groups (g # rest) questions c =
     (if length questions \<ge> QUESTIONS_COUNT then questions
      else (case hybridQuestion lvl ext rnd c groups g of
              (None, c') \<Rightarrow> hybridLoop lvl ext rnd groups rest questions c'
            | (Some q, c') \<Rightarrow> hybridLoop lvl ext rnd groups rest (questions @ [q]) c'))"

definition buildQuizQuestionsHybrid ::
  "level \<Rightarrow> (string \<rightharpoonup> external_entry list) \<Rightarrow> (nat \<Rightarrow> nat) \<Rightarrow> nat
     \<Rightarrow> hybrid_observation list \<Rightarrow> hybrid_question list" where
  "buildQuizQuestionsHybrid lvl externalDistractors rnd c obsList =
     (let groups = collapseGroupsH lvl obsList in
      if groups = [] then []
      else (let (shuffled, c') = shuffleArray rnd c groups
            in hybridLoop lvl externalDistractors rnd groups shuffled [] c'))"

text \<open>The invariant of the collapsing loop of the hybrid generator.\<close>

definition groupsOkH :: "level \<Rightarrow> hybrid_group list \<Rightarrow> bool" where
  "groupsOkH lvl gs \<longleftrightarrow>
     distinct (map h_label gs) \<and>
     (\<forall>g\<in>set gs. getGroupLabelForObsH lvl (h_obs g) = Some (h_label g))"

section \<open>Example inputs\<close>

text \<open>Concrete inputs on which the theorems below are instantiated and evaluated.\<close>

definition zero_rnd :: "nat \<Rightarrow> nat" where "zero_rnd n = 0"

definition sampleObs :: "nat \<Rightarrow> string \<Rightarrow> string option \<Rightarrow> string option \<Rightarrow> observation" where
  "sampleObs i sci fam broad =
     \<lparr> obsId = i, taxonId = Some i, photoUrl = Some ''https://static.example/large.jpg'',
       scientificName = sci, swedishName = None,
       genusName = takeWhile (\<lambda>ch. ch \<noteq> CHR '' '') sci,
       familyName = fam, broadGroup = broad, observer = ''unknown'',
       licenseCode = Some ''cc-by'',
       obsUrl = ''https://www.inaturalist.org/observations/'' @ digits_of i \<rparr>"

definition loneBee :: "observation list" where
  "loneBee = [sampleObs 1 ''Apis mellifera'' (Some ''Apidae'') (Some ''Insecta'')]"

definition fiveInsects :: "observation list" where
  "fiveInsects =
     [sampleObs 1 ''Apis mellifera'' (Some ''Apidae'') (Some ''Insecta''),
      sampleObs 2 ''Bombus terrestris'' (Some ''Apidae'') (Some ''Insecta''),
      sampleObs 3 ''Vespa crabro'' (Some ''Vespidae'') (Some ''Insecta''),
      sampleObs 4 ''Pieris napi'' (Some ''Pieridae'') (Some ''Insecta''),
      sampleObs 5 ''Aglais io'' (Some ''Nymphalidae'') (Some ''Insecta'')]"

definition mixedObs :: "observation list" where
  "mixedObs =
     [sampleObs 1 ''Apis mellifera'' (Some ''Apidae'') (Some ''Insecta''),
      sampleObs 2 ''Bombus terrestris'' (Some ''Apidae'') (Some ''Insecta''),
      sampleObs 6 ''Parus major'' (Some ''Paridae'') (Some ''Aves''),
      sampleObs 7 ''Pica pica'' (Some ''Corvidae'') (Some ''Aves''),
      sampleObs 8 ''Turdus merula'' (Some ''Turdidae'') (Some ''Aves'')]"

definition unenriched :: observation where
  "unenriched = sampleObs 9 ''Sciurus vulgaris'' None None"

definition twelveBeetles :: "observation list" where
  "twelveBeetles =
     map (\<lambda>i. sampleObs i (''Carabus sp'' @ digits_of i) (Some ''Carabidae'') (Some ''Insecta''))
       [1 ..< 13]"

definition oneArray :: "nat store" where "oneArray = [[10, 20, 30, 40, 50]]"
definition count_rnd :: "nat \<Rightarrow> nat" where "count_rnd n = n"

definition falling_rnd :: "nat \<Rightarrow> nat" where "falling_rnd n = 5 - n"

definition sampleRaw :: "nat \<Rightarrow> string \<Rightarrow> string option \<Rightarrow> raw_photo list option \<Rightarrow> raw_obs" where
  "sampleRaw i nm lic phs =
     \<lparr> raw_id = i,
       taxon = Some \<lparr> taxon_id = Some i, taxon_name = Some nm, preferred_common_name = None \<rparr>,
       photos = phs, quality_grade = Some ''research'', license_code = lic,
       user = Some \<lparr> login = Some ''anna'' \<rparr> \<rparr>"

definition samplePhoto :: "string option \<Rightarrow> raw_photo" where
  "samplePhoto lic = \<lparr> url = Some ''https://static.example/photos/7/square.jpg'',
                        photo_license_code = lic \<rparr>"

definition rawLicensed :: raw_obs where
  "rawLicensed = sampleRaw 11 ''Apis mellifera'' (Some ''cc-by'') (Some [samplePhoto None, samplePhoto (Some ''CC-BY-NC'')])"

definition rawNoPhoto :: raw_obs where
  "rawNoPhoto = sampleRaw 12 ''Bombus terrestris'' (Some ''cc-by'') None"

definition rawUnlicensedPhoto :: raw_obs where
  "rawUnlicensedPhoto = sampleRaw 13 ''Vespa crabro'' None (Some [samplePhoto None, samplePhoto (Some ''cc-by-nd'')])"

definition rawDisallowedObs :: raw_obs where
  "rawDisallowedObs = sampleRaw 14 ''Pieris napi'' (Some ''all-rights-reserved'') (Some [samplePhoto (Some ''cc0'')])"

definition rawLeadingSpace :: raw_obs where
  "rawLeadingSpace = sampleRaw 15 '' Apis mellifera'' None (Some [samplePhoto (Some ''cc0'')])"

definition manyObs :: "observation list" where
  "manyObs = map (\<lambda>i. sampleObs i (''Carabus sp'' @ digits_of i) None None) [1 ..< 33]"

definition sampleTaxon :: "nat \<Rightarrow> taxon_info" where
  "sampleTaxon i =
     \<lparr> t_id = i, t_rank = ''species'', t_name = ''Carabus sp'' @ digits_of i,
       t_ancestors = Some [\<lparr> a_rank = ''phylum'', a_name = ''Arthropoda'' \<rparr>,
                           \<lparr> a_rank = ''class'', a_name = ''Insecta'' \<rparr>,
                           \<lparr> a_rank = ''family'', a_name = ''Carabidae'' \<rparr>] \<rparr>"

definition sampleFetch :: "nat list \<Rightarrow> fetch_outcome" where
  "sampleFetch chunk =
     (if 1 \<in> set chunk then FetchRejected
      else Response True (JsonData (Some (map sampleTaxon chunk))))"

definition notOkFetch :: "nat list \<Rightarrow> fetch_outcome" where
  "notOkFetch chunk = Response False (JsonData (Some (map sampleTaxon chunk)))"



definition sampleExample :: "nat \<Rightarrow> example_observation" where
  "sampleExample i =
     \<lparr> ex_obsId = Some i, ex_photoUrl = Some ''https://static.example/medium.jpg'',
       ex_observer = Some ''anna'', ex_licenseCode = Some ''cc-by'',
       ex_obsUrl = Some (''https://www.inaturalist.org/observations/'' @ digits_of i) \<rparr>"

definition sampleSpecies :: "nat \<Rightarrow> string \<Rightarrow> string \<Rightarrow> string \<Rightarrow> species_entry" where
  "sampleSpecies i genus epithet fam =
     \<lparr> sp_taxonId = i, sp_scientificName = genus @ '' '' @ epithet, sp_swedishName = None,
       sp_genusName = Some genus, sp_familyName = Some fam, sp_familySwedishName = None,
       exampleObservation = Some (sampleExample i) \<rparr>"

definition smallGroups :: "(string \<times> species_entry list) list" where
  "smallGroups =
     [(''insects'', [sampleSpecies 1 ''Apis'' ''mellifera'' ''Apidae'',
                     sampleSpecies 2 ''Vespa'' ''crabro'' ''Vespidae'',
                     sampleSpecies 3 ''Pieris'' ''napi'' ''Pieridae'']),
      (''birds'', [sampleSpecies 4 ''Parus'' ''major'' ''Paridae'',
                   sampleSpecies 5 ''Pica'' ''pica'' ''Corvidae'',
                   sampleSpecies 6 ''Turdus'' ''merula'' ''Turdidae'']),
      (''mammals'', [sampleSpecies 7 ''Sciurus'' ''vulgaris'' ''Sciuridae'',
                     sampleSpecies 8 ''Vulpes'' ''vulpes'' ''Canidae'',
                     sampleSpecies 9 ''Alces'' ''alces'' ''Cervidae'']),
      (''plants'', [sampleSpecies 10 ''Betula'' ''pendula'' ''Betulaceae'',
                    sampleSpecies 11 ''Pinus'' ''sylvestris'' ''Pinaceae'',
                    sampleSpecies 12 ''Quercus'' ''robur'' ''Fagaceae''])]"

definition oneLargeGroup :: "(string \<times> species_entry list) list" where
  "oneLargeGroup = [(''all'', concat (map snd smallGroups))]"

definition withoutPhotos :: "(string \<times> species_entry list) list" where
  "withoutPhotos =
     map (\<lambda>(k, list). (k, map (\<lambda>e. e\<lparr> exampleObservation := None \<rparr>) list)) oneLargeGroup"

definition sampleObsH ::
  "nat \<Rightarrow> string \<Rightarrow> string option \<Rightarrow> string option \<Rightarrow> string option \<Rightarrow> hybrid_observation" where
  "sampleObsH i sci fam broad didactic =
     \<lparr> h_obsId = Some i, h_taxonId = Some i,
       h_photoUrl = Some ''https://static.example/large.jpg'',
       h_scientificName = sci, h_swedishName = None,
       h_genusName = takeWhile (\<lambda>ch. ch \<noteq> CHR '' '') sci,
       h_familyName = fam, h_broadGroup = broad, h_didacticGroup = didactic,
       h_observer = ''unknown'', h_licenseCode = Some ''cc-by'',
       h_obsUrl = Some (''https://www.inaturalist.org/observations/'' @ digits_of i) \<rparr>"

definition mixedObsH :: "hybrid_observation list" where
  "mixedObsH =
     [sampleObsH 1 ''Apis mellifera'' (Some ''Apidae'') (Some ''Insecta'') (Some ''insects''),
      sampleObsH 2 ''Bombus terrestris'' (Some ''Apidae'') (Some ''Insecta'') (Some ''insects''),
      sampleObsH 6 ''Parus major'' (Some ''Paridae'') (Some ''Aves'') (Some ''birds''),
      sampleObsH 7 ''Pica pica'' (Some ''Corvidae'') (Some ''Aves'') (Some ''birds''),
      sampleObsH 8 ''Turdus merula'' (Some ''Turdidae'') (Some ''Aves'') (Some ''birds'')]"

definition fiveInsectsH :: "hybrid_observation list" where
  "fiveInsectsH =
     [sampleObsH 1 ''Apis mellifera'' (Some ''Apidae'') (Some ''Insecta'') (Some ''insects''),
      sampleObsH 2 ''Bombus terrestris'' (Some ''Apidae'') (Some ''Insecta'') (Some ''insects''),
      sampleObsH 3 ''Vespa crabro'' (Some ''Vespidae'') (Some ''Insecta'') (Some ''insects''),
      sampleObsH 4 ''Pieris napi'' (Some ''Pieridae'') (Some ''Insecta'') (Some ''insects''),
      sampleObsH 5 ''Aglais io'' (Some ''Nymphalidae'') (Some ''Insecta'') (Some ''insects'')]"

definition noExternal :: "string \<rightharpoonup> external_entry list" where
  "noExternal = Map.empty"

definition fourSpecies :: "(string \<times> species_entry list) list" where
  "fourSpecies =
     [(''insects'', [sampleSpecies 1 ''Apis'' ''mellifera'' ''Apidae'',
                     sampleSpecies 2 ''Vespa'' ''crabro'' ''Vespidae'',
                     sampleSpecies 3 ''Pieris'' ''napi'' ''Pieridae'',
                     sampleSpecies 4 ''Aglais'' ''io'' ''Nymphalidae''])]"

definition repeatedTaxon :: "(string \<times> species_entry list) list" where
  "repeatedTaxon =
     [(''insects'', [sampleSpecies 1 ''Apis'' ''mellifera'' ''Apidae'',
                     sampleSpecies 2 ''Vespa'' ''crabro'' ''Vespidae'',
                     sampleSpecies 2 ''Vespa'' ''crabro'' ''Vespidae'',
                     sampleSpecies 3 ''Pieris'' ''napi'' ''Pieridae''])]"

definition loneBeeH :: "hybrid_observation list" where
  "loneBeeH = [sampleObsH 1 ''Apis mellifera'' None None None]"

definition insectsAndBirdsH :: "hybrid_observation list" where
  "insectsAndBirdsH = fiveInsectsH @ drop 2 mixedObsH"

section \<open>Properties of the array helpers\<close>

lemma length_swap [simp]: "length (swap arr i j) = length arr"
  by (simp add: swap_def)

lemma mset_swap_arr:
  "i < length arr \<Longrightarrow> j < length arr \<Longrightarrow> mset (swap arr i j) = mset arr"
  unfolding swap_def by (rule mset_swap)

lemma random_below_less: "0 < k \<Longrightarrow> random_below rnd c k < k"
  by (simp add: random_below_def)

lemma shuffle_loop_mset:
  "i < length arr \<or> i = 0 \<Longrightarrow> mset (fst (shuffle_loop rnd c i arr)) = mset arr"
proof (induction i arbitrary: c arr)
  case 0
  show ?case by simp
next
  case (Suc i)
  from Suc.prems have len: "Suc i < length arr" by auto
  let ?j = "random_below rnd c (Suc i + 1)"
  have "?j < Suc i + 1" by (rule random_below_less) simp
  with len have j: "?j < length arr" by simp
  have "mset (fst (shuffle_loop rnd (Suc c) i (swap arr (Suc i) ?j)))
        = mset (swap arr (Suc i) ?j)"
    by (rule Suc.IH) (use len in simp)
  also have "\<dots> = mset arr" using len j by (rule mset_swap_arr)
  finally show ?case by (simp add: Let_def)
qed

lemma shuffle_loop_counter: "snd (shuffle_loop rnd c i arr) = c + i"
  by (induction i arbitrary: c arr) (simp_all add: Let_def)

lemma shuffleArray_mset: "mset (fst (shuffleArray rnd c array)) = mset array"
  unfolding shuffleArray_def
  by (rule shuffle_loop_mset) (cases array, simp_all)

lemma shuffleArray_length [simp]: "length (fst (shuffleArray rnd c array)) = length array"
  using shuffleArray_mset [of rnd c array] by (metis size_mset)

lemma shuffleArray_set [simp]: "set (fst (shuffleArray rnd c array)) = set array"
  using shuffleArray_mset [of rnd c array] by (metis set_mset_mset)

lemma shuffleArray_distinct [simp]:
  "distinct (fst (shuffleArray rnd c array)) = distinct array"
  using shuffleArray_mset [of rnd c array] by (metis mset_eq_imp_distinct_iff)

lemma mset_take_subset: "mset (take n xs) \<subseteq># mset xs"
proof -
  have "mset xs = mset (take n xs) + mset (drop n xs)"
    by (metis append_take_drop_id mset_append)
  then show ?thesis by simp
qed

lemma pickRandomSubset_length:
  "length (fst (pickRandomSubset rnd c array n)) = min n (length array)"
proof -
  obtain sh c' where sh: "shuffleArray rnd c array = (sh, c')" by (cases "shuffleArray rnd c array")
  then have "length sh = length array" using shuffleArray_length [of rnd c array] by simp
  then show ?thesis using sh by (simp add: pickRandomSubset_def)
qed

lemma pickRandomSubset_mset:
  "mset (fst (pickRandomSubset rnd c array n)) \<subseteq># mset array"
proof (cases "length array \<le> n")
  case True
  then show ?thesis by (simp add: pickRandomSubset_def)
next
  case False
  obtain sh c' where sh: "shuffleArray rnd c array = (sh, c')" by (cases "shuffleArray rnd c array")
  then have "mset sh = mset array" using shuffleArray_mset [of rnd c array] by simp
  moreover have "mset (take n sh) \<subseteq># mset sh" by (rule mset_take_subset)
  ultimately show ?thesis using False sh by (simp add: pickRandomSubset_def)
qed

lemma pickRandomSubset_set: "set (fst (pickRandomSubset rnd c array n)) \<subseteq> set array"
  using pickRandomSubset_mset [of rnd c array n] by (metis set_mset_mono set_mset_mset)

lemma pickRandomSubset_distinct:
  "distinct array \<Longrightarrow> distinct (fst (pickRandomSubset rnd c array n))"
proof -
  assume d: "distinct array"
  obtain sh c' where sh: "shuffleArray rnd c array = (sh, c')" by (cases "shuffleArray rnd c array")
  then have "distinct sh" using shuffleArray_distinct [of rnd c array] d by simp
  then show ?thesis using d sh by (simp add: pickRandomSubset_def)
qed

subsection \<open>The shuffle reaches every arrangement, each by one sequence of draws\<close>

lemma shuffle_loop_length [simp]: "length (fst (shuffle_loop rnd c i arr)) = length arr"
  by (induction i arbitrary: c arr) (simp_all add: Let_def)

lemma swap_append:
  "i < length pre \<Longrightarrow> j < length pre \<Longrightarrow> swap (pre @ post) i j = swap pre i j @ post"
  by (simp add: swap_def nth_append list_update_append)

lemma shuffle_loop_append:
  "i < length pre \<Longrightarrow>
     shuffle_loop rnd c i (pre @ post)
       = (fst (shuffle_loop rnd c i pre) @ post, snd (shuffle_loop rnd c i pre))"
proof (induction i arbitrary: c pre)
  case 0
  show ?case by simp
next
  case (Suc i)
  let ?j = "random_below rnd c (Suc i + 1)"
  have "?j < Suc i + 1" by (rule random_below_less) simp
  with Suc.prems have j: "?j < length pre" by simp
  have "swap (pre @ post) (Suc i) ?j = swap pre (Suc i) ?j @ post"
    using Suc.prems j by (rule swap_append)
  moreover have "i < length (swap pre (Suc i) ?j)" using Suc.prems by simp
  ultimately show ?case using Suc.IH [of "swap pre (Suc i) ?j" "Suc c"] by (simp add: Let_def)
qed

lemma shuffle_loop_cong:
  "(\<And>k. c \<le> k \<Longrightarrow> rnd k = rnd' k) \<Longrightarrow> shuffle_loop rnd c i arr = shuffle_loop rnd' c i arr"
proof (induction i arbitrary: c arr)
  case 0
  show ?case by simp
next
  case (Suc i)
  have "random_below rnd c (Suc i + 1) = random_below rnd' c (Suc i + 1)"
    using Suc.prems [of c] by (simp add: random_below_def)
  moreover have "shuffle_loop rnd (Suc c) i (swap arr (Suc i) (random_below rnd' c (Suc i + 1)))
                   = shuffle_loop rnd' (Suc c) i (swap arr (Suc i) (random_below rnd' c (Suc i + 1)))"
  proof (rule Suc.IH)
    fix k
    assume "Suc c \<le> k"
    then show "rnd k = rnd' k" using Suc.prems [of k] by simp
  qed
  ultimately show ?case by (simp add: Let_def)
qed

lemma swap_last:
  "j < length arr \<Longrightarrow> arr \<noteq> [] \<Longrightarrow>
     swap arr (length arr - 1) j = butlast (swap arr (length arr - 1) j) @ [arr ! j]"
proof -
  assume j: "j < length arr" and ne: "arr \<noteq> []"
  let ?s = "swap arr (length arr - 1) j"
  have "?s \<noteq> []" using ne by (metis length_swap length_0_conv)
  then have "?s = butlast ?s @ [last ?s]" by simp
  moreover have "last ?s = ?s ! (length arr - 1)"
    using \<open>?s \<noteq> []\<close> by (simp add: last_conv_nth)
  moreover have "?s ! (length arr - 1) = arr ! j"
    using j ne by (cases "j = length arr - 1") (simp_all add: swap_def)
  ultimately show ?thesis by simp
qed

text \<open>Every arrangement of the array is the result of the shuffle for some draws.\<close>

lemma shuffleArray_onto:
  "mset ys = mset xs \<Longrightarrow> \<exists>rnd. fst (shuffleArray rnd c xs) = ys"
proof (induction ys arbitrary: xs c rule: rev_induct)
  case Nil
  then show ?case by (simp add: shuffleArray_def)
next
  case (snoc y ys)
  from snoc.prems have len: "length xs = Suc (length ys)"
    by (metis length_append_singleton size_mset)
  from snoc.prems have "y \<in> set xs" by (metis in_set_conv_decomp set_mset_mset)
  then obtain j where j: "j < length xs" "xs ! j = y" by (auto simp: in_set_conv_nth)
  have ne: "xs \<noteq> []" using len by auto
  let ?s = "swap xs (length xs - 1) j"
  have s: "?s = butlast ?s @ [y]" using swap_last [OF j(1) ne] j(2) by simp
  have "mset ?s = mset xs" using j(1) ne by (intro mset_swap_arr) simp_all
  then have "mset (butlast ?s @ [y]) = mset (ys @ [y])" using s snoc.prems by simp
  then have m: "mset ys = mset (butlast ?s)" by simp
  from snoc.IH [OF m, of "Suc c"] obtain rnd' where
    r': "fst (shuffleArray rnd' (Suc c) (butlast ?s)) = ys" by blast
  have lb: "length (butlast ?s) = length ys" using len by simp
  show ?case
  proof (cases "length ys")
    case 0
    then have "ys = []" by simp
    moreover from len 0 have "length xs = 1" by simp
    moreover from this snoc.prems \<open>ys = []\<close> have "xs = [y]"
      by (metis append_Nil mset_single_iff_right mset.simps(2) mset_zero_iff_right)
    ultimately show ?thesis by (simp add: shuffleArray_def)
  next
    case (Suc n)
    let ?rnd = "rnd'(c := j)"
    have rb: "random_below ?rnd c (Suc (Suc n)) = j"
      using j(1) len Suc by (simp add: random_below_def)
    have "shuffle_loop ?rnd (Suc c) n ?s = shuffle_loop rnd' (Suc c) n ?s"
      by (rule shuffle_loop_cong) simp
    also have "\<dots> = shuffle_loop rnd' (Suc c) n (butlast ?s @ [y])" using s by simp
    also have "\<dots> = (fst (shuffle_loop rnd' (Suc c) n (butlast ?s)) @ [y],
                      snd (shuffle_loop rnd' (Suc c) n (butlast ?s)))"
      using lb Suc by (intro shuffle_loop_append) simp
    finally have "fst (shuffle_loop ?rnd (Suc c) n ?s)
                    = fst (shuffle_loop rnd' (Suc c) n (butlast ?s)) @ [y]" by simp
    moreover have "fst (shuffle_loop rnd' (Suc c) n (butlast ?s)) = ys"
      using r' lb Suc len unfolding shuffleArray_def by simp
    ultimately have "fst (shuffle_loop ?rnd (Suc c) n ?s) = ys @ [y]" by simp
    then have "fst (shuffleArray ?rnd c xs) = ys @ [y]"
      using len Suc rb by (simp add: shuffleArray_def Let_def)
    then show ?thesis by blast
  qed
qed

text \<open>Different draws give different arrangements of an array without repetitions.\<close>

lemma shuffle_loop_last:
  "i < length arr \<Longrightarrow> k < length arr \<Longrightarrow> i < k \<Longrightarrow> fst (shuffle_loop rnd c i arr) ! k = arr ! k"
proof -
  assume i: "i < length arr" and k: "k < length arr" and ik: "i < k"
  have "arr = take (Suc i) arr @ drop (Suc i) arr" by simp
  moreover have l: "i < length (take (Suc i) arr)" using i by simp
  ultimately have "fst (shuffle_loop rnd c i arr)
      = fst (shuffle_loop rnd c i (take (Suc i) arr)) @ drop (Suc i) arr"
    using shuffle_loop_append [OF l, of rnd c "drop (Suc i) arr"] by simp
  then have "fst (shuffle_loop rnd c i arr) ! k
      = (fst (shuffle_loop rnd c i (take (Suc i) arr)) @ drop (Suc i) arr) ! k" by simp
  also have "\<dots> = drop (Suc i) arr ! (k - Suc i)"
  proof -
    have "length (fst (shuffle_loop rnd c i (take (Suc i) arr))) = Suc i" using i by simp
    then show ?thesis using ik by (simp add: nth_append)
  qed
  also have "\<dots> = arr ! k" using i k ik by simp
  finally show ?thesis .
qed

lemma shuffle_loop_inj:
  "distinct arr \<Longrightarrow> i < length arr \<Longrightarrow>
   fst (shuffle_loop rnd c i arr) = fst (shuffle_loop rnd' c i arr) \<Longrightarrow>
   k < i \<Longrightarrow> random_below rnd (c + k) (i - k + 1) = random_below rnd' (c + k) (i - k + 1)"
proof (induction i arbitrary: c arr k)
  case 0
  then show ?case by simp
next
  case (Suc i)
  let ?j = "random_below rnd c (Suc i + 1)"
  let ?j' = "random_below rnd' c (Suc i + 1)"
  have jl: "?j < Suc i + 1" "?j' < Suc i + 1" by (rule random_below_less, simp)+
  with Suc.prems(2) have jlen: "?j < length arr" "?j' < length arr" by simp_all
  have at: "\<And>r cc. fst (shuffle_loop r cc i (swap arr (Suc i) (random_below r c (Suc i + 1)))) ! Suc i
              = arr ! random_below r c (Suc i + 1)"
  proof -
    fix r cc
    let ?jj = "random_below r c (Suc i + 1)"
    have "?jj < Suc i + 1" by (rule random_below_less) simp
    with Suc.prems(2) have jj: "?jj < length arr" by simp
    have "fst (shuffle_loop r cc i (swap arr (Suc i) ?jj)) ! Suc i = swap arr (Suc i) ?jj ! Suc i"
      using Suc.prems(2) by (intro shuffle_loop_last) simp_all
    also have "\<dots> = arr ! ?jj"
      using Suc.prems(2) jj by (cases "?jj = Suc i") (simp_all add: swap_def)
    finally show "fst (shuffle_loop r cc i (swap arr (Suc i) ?jj)) ! Suc i = arr ! ?jj" .
  qed
  from Suc.prems(3) have eq: "fst (shuffle_loop rnd (Suc c) i (swap arr (Suc i) ?j))
                              = fst (shuffle_loop rnd' (Suc c) i (swap arr (Suc i) ?j'))"
    by (simp add: Let_def)
  then have "arr ! ?j = arr ! ?j'" using at [of rnd "Suc c"] at [of rnd' "Suc c"] by simp
  then have jj: "?j = ?j'" using Suc.prems(1) jlen by (simp add: nth_eq_iff_index_eq)
  show ?case
  proof (cases k)
    case 0
    then show ?thesis using jj by simp
  next
    case (Suc k')
    have d: "distinct (swap arr (Suc i) ?j)"
      using Suc.prems(1,2) jlen mset_swap_arr [of "Suc i" arr ?j]
      by (metis mset_eq_imp_distinct_iff)
    have "random_below rnd (Suc c + k') (i - k' + 1) = random_below rnd' (Suc c + k') (i - k' + 1)"
      using d _ _ _
    proof (rule Suc.IH)
      show "i < length (swap arr (Suc i) ?j)" using Suc.prems(2) by simp
      show "fst (shuffle_loop rnd (Suc c) i (swap arr (Suc i) ?j))
              = fst (shuffle_loop rnd' (Suc c) i (swap arr (Suc i) ?j))"
        using eq jj by simp
      show "k' < i" using Suc.prems(4) Suc by simp
    qed
    then show ?thesis using Suc by simp
  qed
qed

lemma shuffleArray_inj:
  assumes "distinct xs" and "fst (shuffleArray rnd c xs) = fst (shuffleArray rnd' c xs)"
    and "k < length xs - 1"
  shows "random_below rnd (c + k) (length xs - k) = random_below rnd' (c + k) (length xs - k)"
proof -
  have l: "length xs - 1 < length xs" using assms(3) by simp
  have e: "length xs - 1 - k + 1 = length xs - k" using assms(3) by arith
  have "random_below rnd (c + k) (length xs - 1 - k + 1)
          = random_below rnd' (c + k) (length xs - 1 - k + 1)"
    using assms(1) l assms(2) [unfolded shuffleArray_def] assms(3) by (rule shuffle_loop_inj)
  then show ?thesis unfolding e .
qed

subsection \<open>The store versions\<close>

lemma slice_st_whole: "slice_st h a 0 (length (h ! a)) = (h @ [h ! a], length h)"
  by (simp add: slice_st_def)

lemma swap_st_swap: "swap_st h r i j = h[r := swap (h ! r) i j]"
  by (simp add: swap_st_def swap_def)

lemma shuffle_loop_st_pure:
  "r < length h \<Longrightarrow>
     shuffle_loop_st rnd c i h r
       = (h[r := fst (shuffle_loop rnd c i (h ! r))], snd (shuffle_loop rnd c i (h ! r)))"
proof (induction i arbitrary: c h)
  case 0
  then show ?case by simp
next
  case (Suc i)
  let ?j = "random_below rnd c (Suc i + 1)"
  let ?h = "h[r := swap (h ! r) (Suc i) ?j]"
  have r: "r < length ?h" using Suc.prems by simp
  have at: "?h ! r = swap (h ! r) (Suc i) ?j" using Suc.prems by simp
  have "shuffle_loop_st rnd (Suc c) i ?h r
          = (?h[r := fst (shuffle_loop rnd (Suc c) i (?h ! r))],
             snd (shuffle_loop rnd (Suc c) i (?h ! r)))"
    using r by (rule Suc.IH)
  then show ?case using Suc.prems by (simp add: Let_def swap_st_swap)
qed

lemma shuffleArray_st_pure:
  assumes "a < length h"
  shows "shuffleArray_st rnd c h a
           = (length h, h @ [fst (shuffleArray rnd c (h ! a))], snd (shuffleArray rnd c (h ! a)))"
proof -
  have "shuffle_loop_st rnd c (length (h ! a) - 1) (h @ [h ! a]) (length h)
          = ((h @ [h ! a])[length h := fst (shuffle_loop rnd c (length (h ! a) - 1) (h ! a))],
             snd (shuffle_loop rnd c (length (h ! a) - 1) (h ! a)))"
    using shuffle_loop_st_pure [of "length h" "h @ [h ! a]" rnd c "length (h ! a) - 1"] by simp
  then show ?thesis
    by (simp add: shuffleArray_st_def slice_st_whole shuffleArray_def)
qed

lemma pickRandomSubset_st_pure:
  assumes "a < length h"
  shows "\<exists>tmp. pickRandomSubset_st rnd c h a n
           = (length h + length tmp, h @ tmp @ [fst (pickRandomSubset rnd c (h ! a) n)],
              snd (pickRandomSubset rnd c (h ! a) n))"
proof (cases "length (h ! a) \<le> n")
  case True
  then have "pickRandomSubset_st rnd c h a n
           = (length h + length ([] :: 'a list list), h @ [] @ [fst (pickRandomSubset rnd c (h ! a) n)],
              snd (pickRandomSubset rnd c (h ! a) n))"
    by (simp add: pickRandomSubset_st_def pickRandomSubset_def slice_st_whole)
  then show ?thesis by blast
next
  case False
  let ?sh = "fst (shuffleArray rnd c (h ! a))"
  have "pickRandomSubset_st rnd c h a n
           = (length h + length [?sh], h @ [?sh] @ [fst (pickRandomSubset rnd c (h ! a) n)],
              snd (pickRandomSubset rnd c (h ! a) n))"
    using False
    by (simp add: pickRandomSubset_st_def pickRandomSubset_def shuffleArray_st_pure [OF assms]
        slice_st_def case_prod_beta nth_append)
  then show ?thesis by blast
qed

text \<open>
  C8. For every array and every \<open>n\<close>, \<^verbatim>\<open>pickRandomSubset\<close> returns a new array of length
  min(n, length of the input) whose elements form a sub-multiset of the input's, and
  \<^verbatim>\<open>shuffleArray\<close> returns a new array that is a permutation of its input. Neither
  changes its input: every array that was in the store before the call, the argument
  included, is the same afterwards, and the result is a reference allocated by the call.
\<close>

theorem helpers_do_not_mutate:
  assumes "a < length h"
  shows "(case pickRandomSubset_st rnd c h a n of
            (r, h', c') \<Rightarrow>
              h' ! r = fst (pickRandomSubset rnd c (h ! a) n)
            \<and> length (h' ! r) = min n (length (h ! a))
            \<and> mset (h' ! r) \<subseteq># mset (h ! a)
            \<and> take (length h) h' = h \<and> h' ! a = h ! a \<and> length h \<le> r)
       \<and> (case shuffleArray_st rnd c h a of
            (r, h', c') \<Rightarrow>
              h' ! r = fst (shuffleArray rnd c (h ! a))
            \<and> mset (h' ! r) = mset (h ! a)
            \<and> take (length h) h' = h \<and> h' ! a = h ! a \<and> length h \<le> r)"
proof -
  obtain tmp where p: "pickRandomSubset_st rnd c h a n
           = (length h + length tmp, h @ tmp @ [fst (pickRandomSubset rnd c (h ! a) n)],
              snd (pickRandomSubset rnd c (h ! a) n))"
    using pickRandomSubset_st_pure [OF assms] by blast
  have "(h @ tmp @ [fst (pickRandomSubset rnd c (h ! a) n)]) ! (length h + length tmp)
          = fst (pickRandomSubset rnd c (h ! a) n)"
    by (simp add: nth_append)
  then have one: "case pickRandomSubset_st rnd c h a n of
            (r, h', c') \<Rightarrow>
              h' ! r = fst (pickRandomSubset rnd c (h ! a) n)
            \<and> length (h' ! r) = min n (length (h ! a))
            \<and> mset (h' ! r) \<subseteq># mset (h ! a)
            \<and> take (length h) h' = h \<and> h' ! a = h ! a \<and> length h \<le> r"
    using assms by (simp add: p pickRandomSubset_length pickRandomSubset_mset nth_append)
  have two: "case shuffleArray_st rnd c h a of
            (r, h', c') \<Rightarrow>
              h' ! r = fst (shuffleArray rnd c (h ! a))
            \<and> mset (h' ! r) = mset (h ! a)
            \<and> take (length h) h' = h \<and> h' ! a = h ! a \<and> length h \<le> r"
    using assms by (simp add: shuffleArray_st_pure [OF assms] shuffleArray_mset nth_append)
  from one two show ?thesis by blast
qed

theorem helpers_do_not_mutate_witness:
  "0 < length oneArray
   \<and> pickRandomSubset_st count_rnd 0 oneArray 0 3
       = (2, [[10, 20, 30, 40, 50], [50, 40, 30, 20, 10], [50, 40, 30]], 4)
   \<and> shuffleArray_st count_rnd 0 oneArray 0
       = (1, [[10, 20, 30, 40, 50], [50, 40, 30, 20, 10]], 4)
   \<and> mset [50, 40, 30] \<subseteq># mset (oneArray ! 0)"
proof -
  have a: "0 < length oneArray" by code_simp
  have p: "pickRandomSubset_st count_rnd 0 oneArray 0 3
       = (2, [[10, 20, 30, 40, 50], [50, 40, 30, 20, 10], [50, 40, 30]], 4)" by code_simp
  have s: "shuffleArray_st count_rnd 0 oneArray 0
       = (1, [[10, 20, 30, 40, 50], [50, 40, 30, 20, 10]], 4)" by code_simp
  have "mset [50, 40, 30] \<subseteq># mset (oneArray ! 0)"
    using helpers_do_not_mutate [OF a, of count_rnd 0 3] unfolding p s
    by (simp (no_asm_use)) blast
  with a p s show ?thesis by blast
qed

section \<open>Claims about the data source adapter\<close>

lemma filterAndTransform_append:
  "filterAndTransform (xs @ ys) = filterAndTransform xs @ filterAndTransform ys"
  by (induction xs) (simp_all split: option.splits)

lemma filterAndTransform_map_filter:
  "filterAndTransform rawObs = List.map_filter transformObs rawObs"
  by (induction rawObs) (simp_all add: List.map_filter_simps split: option.splits)

lemma transformObs_Some:
  assumes "transformObs ob = Some r"
  shows "\<exists>tx ps photo.
           taxon ob = Some tx \<and> photos ob = Some ps
         \<and> find (\<lambda>p. licenseIsAllowed (photo_license_code p)) ps = Some photo
         \<and> \<not> obsLicenseDisallowed ob
         \<and> truthy (buildPhotoUrl (Some photo))
         \<and> (\<exists>n. taxon_name tx = Some n \<and> n \<noteq> []
                \<and> r = makeObservation ob tx photo (buildPhotoUrl (Some photo)) n)"
proof (cases "taxon ob")
  case None
  with assms show ?thesis by (simp add: transformObs_def)
next
  case (Some tx)
  note tx = this
  show ?thesis
  proof (cases "photos ob")
    case None
    with assms tx show ?thesis by (simp add: transformObs_def)
  next
    case (Some ps)
    note ps = this
    from assms tx ps have lic: "\<not> obsLicenseDisallowed ob"
      by (auto simp: transformObs_def obsLicenseDisallowed_def split: if_splits)
    from assms tx ps obtain photo where
      ph: "find (\<lambda>p. licenseIsAllowed (photo_license_code p)) ps = Some photo"
      by (cases "find (\<lambda>p. licenseIsAllowed (photo_license_code p)) ps")
         (auto simp: transformObs_def split: if_splits)
    from assms tx ps ph have pu: "truthy (buildPhotoUrl (Some photo))"
      by (auto simp: transformObs_def Let_def split: if_splits)
    from assms tx ps ph pu obtain n where
      "taxon_name tx = Some n" "n \<noteq> []"
      "r = makeObservation ob tx photo (buildPhotoUrl (Some photo)) n"
      by (cases "taxon_name tx") (auto simp: transformObs_def Let_def split: if_splits)
    with tx ps ph lic pu show ?thesis by blast
  qed
qed

lemma transformObs_Some_licensed:
  assumes "transformObs ob = Some r"
  shows "hasLicensedPhoto ob \<and> \<not> obsLicenseDisallowed ob"
proof -
  from transformObs_Some [OF assms] obtain ps photo where
    ps: "photos ob = Some ps"
    and ph: "find (\<lambda>p. licenseIsAllowed (photo_license_code p)) ps = Some photo"
    and lic: "\<not> obsLicenseDisallowed ob" by blast
  from ph have "licenseIsAllowed (photo_license_code photo) \<and> photo \<in> set ps"
    by (auto simp: find_Some_iff)
  then have "list_ex (\<lambda>p. licenseIsAllowed (photo_license_code p)) ps"
    by (auto simp: list_ex_iff)
  with ps lic show ?thesis by (simp add: hasLicensedPhoto_def)
qed

lemma transformObs_excluded:
  "\<not> hasLicensedPhoto ob \<or> obsLicenseDisallowed ob \<Longrightarrow> transformObs ob = None"
  using transformObs_Some_licensed [of ob] by (cases "transformObs ob") auto

lemma filterAndTransform_from:
  "r \<in> set (filterAndTransform rawObs) \<Longrightarrow> \<exists>ob\<in>set rawObs. transformObs ob = Some r"
  by (induction rawObs) (auto split: option.splits)

lemma split_on_hd: "hd (split_on sep s) = takeWhile (\<lambda>ch. ch \<noteq> sep) s \<and> split_on sep s \<noteq> []"
  by (induction s) (auto split: list.splits)

lemma replace_first_nonempty: "u \<noteq> [] \<Longrightarrow> rep \<noteq> [] \<Longrightarrow> replace_first pat rep u \<noteq> []"
  by (cases u) auto

lemma genusOf_firstToken:
  "genusOf s = (if firstToken s = [] then s else firstToken s)"
proof -
  obtain w ws where w: "split_on CHR '' '' s = w # ws"
    using split_on_hd [of "CHR '' ''" s] by (cases "split_on CHR '' '' s") auto
  then have "w = firstToken s"
    using split_on_hd [of "CHR '' ''" s] by (simp add: firstToken_def)
  with w show ?thesis by (simp add: genusOf_def)
qed

lemma transformObs_shape:
  assumes "transformObs ob = Some r"
  shows "truthy (photoUrl r) \<and> scientificName r \<noteq> [] \<and> genusName r \<noteq> []
       \<and> genusName r = (if firstToken (scientificName r) = [] then scientificName r
                         else firstToken (scientificName r))
       \<and> familyName r = None \<and> broadGroup r = None"
proof -
  from transformObs_Some [OF assms] obtain tx photo n where
    pu: "truthy (buildPhotoUrl (Some photo))" and n: "n \<noteq> []"
    and r: "r = makeObservation ob tx photo (buildPhotoUrl (Some photo)) n" by blast
  have "genusOf n \<noteq> []" using n by (simp add: genusOf_firstToken)
  then show ?thesis using pu n unfolding r
    by (simp add: makeObservation_def genusOf_firstToken)
qed

text \<open>
  C6. \<^verbatim>\<open>filterAndTransform\<close> drops every raw record that has no photo, no photo with an
  allowed licence, or an observation licence that is present and not allowed: such a
  record yields no observation and the result is the same as if it were not in the input.
  The function is total: each record is handled on its own (the result is the list of the
  records that \<open>transformObs\<close> accepts, in order), no record stops the others, and every
  observation returned comes from a record with a licensed photo.
\<close>

theorem unlicensed_records_dropped:
  "(photos ob = None \<or> photos ob = Some [] \<or> \<not> hasLicensedPhoto ob \<or> obsLicenseDisallowed ob
      \<longrightarrow> transformObs ob = None
        \<and> filterAndTransform (xs @ ob # ys) = filterAndTransform (xs @ ys))
   \<and> filterAndTransform rawObs = List.map_filter transformObs rawObs
   \<and> (\<forall>r\<in>set (filterAndTransform rawObs).
         \<exists>ob'\<in>set rawObs. transformObs ob' = Some r \<and> hasLicensedPhoto ob' \<and> \<not> obsLicenseDisallowed ob')"
proof -
  have a: "photos ob = None \<or> photos ob = Some [] \<or> \<not> hasLicensedPhoto ob \<or> obsLicenseDisallowed ob
      \<longrightarrow> transformObs ob = None
        \<and> filterAndTransform (xs @ ob # ys) = filterAndTransform (xs @ ys)"
  proof
    assume "photos ob = None \<or> photos ob = Some [] \<or> \<not> hasLicensedPhoto ob \<or> obsLicenseDisallowed ob"
    then have "\<not> hasLicensedPhoto ob \<or> obsLicenseDisallowed ob"
      by (auto simp: hasLicensedPhoto_def)
    then have n: "transformObs ob = None" by (rule transformObs_excluded)
    then have "filterAndTransform (xs @ ob # ys) = filterAndTransform (xs @ ys)"
      by (simp add: filterAndTransform_append)
    with n show "transformObs ob = None
        \<and> filterAndTransform (xs @ ob # ys) = filterAndTransform (xs @ ys)" by simp
  qed
  have c: "\<forall>r\<in>set (filterAndTransform rawObs).
         \<exists>ob'\<in>set rawObs. transformObs ob' = Some r \<and> hasLicensedPhoto ob' \<and> \<not> obsLicenseDisallowed ob'"
    using filterAndTransform_from transformObs_Some_licensed by blast
  from a c show ?thesis by (simp add: filterAndTransform_map_filter)
qed

theorem unlicensed_records_dropped_witness:
  "photos rawNoPhoto = None \<and> transformObs rawNoPhoto = None
   \<and> \<not> hasLicensedPhoto rawUnlicensedPhoto \<and> transformObs rawUnlicensedPhoto = None
   \<and> obsLicenseDisallowed rawDisallowedObs \<and> transformObs rawDisallowedObs = None
   \<and> filterAndTransform ([rawLicensed] @ rawNoPhoto # [rawLeadingSpace])
       = filterAndTransform ([rawLicensed] @ [rawLeadingSpace])
   \<and> filterAndTransform ([rawLicensed] @ rawUnlicensedPhoto # [rawLeadingSpace])
       = filterAndTransform ([rawLicensed] @ [rawLeadingSpace])
   \<and> filterAndTransform ([rawLicensed] @ rawDisallowedObs # [rawLeadingSpace])
       = filterAndTransform ([rawLicensed] @ [rawLeadingSpace])
   \<and> map obsId (filterAndTransform
         [rawLicensed, rawNoPhoto, rawUnlicensedPhoto, rawDisallowedObs, rawLeadingSpace]) = [11, 15]"
proof -
  have a: "photos rawNoPhoto = None" by code_simp
  have b: "\<not> hasLicensedPhoto rawUnlicensedPhoto" by code_simp
  have c: "obsLicenseDisallowed rawDisallowedObs" by code_simp
  have d: "map obsId (filterAndTransform
         [rawLicensed, rawNoPhoto, rawUnlicensedPhoto, rawDisallowedObs, rawLeadingSpace]) = [11, 15]"
    by code_simp
  show ?thesis
    using unlicensed_records_dropped [where ob = rawNoPhoto and xs = "[rawLicensed]"
        and ys = "[rawLeadingSpace]" and rawObs = "[]"]
      unlicensed_records_dropped [where ob = rawUnlicensedPhoto and xs = "[rawLicensed]"
        and ys = "[rawLeadingSpace]" and rawObs = "[]"]
      unlicensed_records_dropped [where ob = rawDisallowedObs and xs = "[rawLicensed]"
        and ys = "[rawLeadingSpace]" and rawObs = "[]"]
      a b c d
    by simp
qed

text \<open>
  C9 (as amended). Every observation produced by \<^verbatim>\<open>filterAndTransform\<close> has a non-null,
  non-empty photoUrl, a non-empty scientificName, and familyName and broadGroup equal to
  null. Its genusName is non-empty: it is the first space-separated token of the
  scientific name when that token is non-empty, and the whole scientific name otherwise
  (a name that begins with a space).
\<close>

theorem transformed_observation_shape:
  assumes "r \<in> set (filterAndTransform rawObs)"
  shows "truthy (photoUrl r) \<and> scientificName r \<noteq> [] \<and> genusName r \<noteq> []
       \<and> genusName r = (if firstToken (scientificName r) = [] then scientificName r
                         else firstToken (scientificName r))
       \<and> familyName r = None \<and> broadGroup r = None"
  using filterAndTransform_from [OF assms] transformObs_shape by blast


theorem transformed_observation_shape_witness:
  "hd (filterAndTransform [rawLicensed]) \<in> set (filterAndTransform [rawLicensed])
   \<and> photoUrl (hd (filterAndTransform [rawLicensed]))
       = Some ''https://static.example/photos/7/large.jpg''
   \<and> truthy (photoUrl (hd (filterAndTransform [rawLicensed])))
   \<and> scientificName (hd (filterAndTransform [rawLicensed])) = ''Apis mellifera''
   \<and> genusName (hd (filterAndTransform [rawLicensed])) = ''Apis''
   \<and> familyName (hd (filterAndTransform [rawLicensed])) = None
   \<and> broadGroup (hd (filterAndTransform [rawLicensed])) = None"
proof -
  have m: "hd (filterAndTransform [rawLicensed]) \<in> set (filterAndTransform [rawLicensed])"
    by code_simp
  have p: "photoUrl (hd (filterAndTransform [rawLicensed]))
       = Some ''https://static.example/photos/7/large.jpg''" by code_simp
  have s: "scientificName (hd (filterAndTransform [rawLicensed])) = ''Apis mellifera''"
    by code_simp
  have f: "firstToken ''Apis mellifera'' = ''Apis''" by code_simp
  show ?thesis
    using transformed_observation_shape [OF m] m p s f by simp
qed

text \<open>
  The claim as stated (genusName always equals the first space-separated token) fails for
  a taxon name that begins with a space: the first token is empty and the
  \<^verbatim>\<open>|| scientificName\<close> fallback makes the genus the whole name.
\<close>

theorem transformed_observation_shape_counterexample:
  "map scientificName (filterAndTransform [rawLeadingSpace]) = ['' Apis mellifera'']
   \<and> map genusName (filterAndTransform [rawLeadingSpace]) = ['' Apis mellifera'']
   \<and> split_on CHR '' '' '' Apis mellifera'' = ['''', ''Apis'', ''mellifera'']
   \<and> firstToken '' Apis mellifera'' = ''''"
  by code_simp

section \<open>Claims about the taxonomy enrichment\<close>

declare chunksFrom.simps [simp del]

lemma tryChunk_taxa:
  "(case tryChunk fetch chunk m of Inl err \<Rightarrow> m | Inr m' \<Rightarrow> m')
     = foldl recordTaxon m (chunkTaxa fetch chunk)"
  by (simp add: tryChunk_def chunkTaxa_def split: fetch_outcome.splits json_body.splits option.splits)

declare enrichLoop.simps [simp del]

lemma enrichLoop_chunks:
  "enrichLoop fetch ids i (m, reqs)
     = (foldl recordTaxon m (concat (map (chunkTaxa fetch) (chunksFrom ids i))),
        reqs @ chunksFrom ids i)"
proof (induction ids i arbitrary: m reqs rule: chunksFrom.induct)
  case (1 ids i)
  show ?case
  proof (cases "i < length ids")
    case True
    let ?chunk = "take chunkSize (drop i ids)"
    let ?m = "foldl recordTaxon m (chunkTaxa fetch ?chunk)"
    have "enrichLoop fetch ids i (m, reqs) = enrichLoop fetch ids (i + chunkSize) (?m, reqs @ [?chunk])"
      using True by (subst enrichLoop.simps) (simp add: Let_def tryChunk_taxa cong: sum.case_cong)
    also have "\<dots> = (foldl recordTaxon ?m
                        (concat (map (chunkTaxa fetch) (chunksFrom ids (i + chunkSize)))),
                      (reqs @ [?chunk]) @ chunksFrom ids (i + chunkSize))"
      using True by (rule "1.IH")
    also have "\<dots> = (foldl recordTaxon m (concat (map (chunkTaxa fetch) (chunksFrom ids i))),
                      reqs @ chunksFrom ids i)"
      using True by (subst (3 4) chunksFrom.simps) simp
    finally show ?thesis .
  next
    case False
    then show ?thesis
      by (subst enrichLoop.simps, subst (1 2) chunksFrom.simps) simp
  qed
qed

lemma chunksFrom_concat: "concat (chunksFrom ids i) = drop i ids"
proof (induction ids i rule: chunksFrom.induct)
  case (1 ids i)
  show ?case
  proof (cases "i < length ids")
    case True
    have "take chunkSize (drop i ids) @ drop (i + chunkSize) ids = drop i ids"
      by (metis add.commute append_take_drop_id drop_drop)
    then show ?thesis using True "1.IH" by (subst chunksFrom.simps) simp
  next
    case False
    then show ?thesis by (subst chunksFrom.simps) simp
  qed
qed

lemma chunksFrom_sizes:
  "\<forall>ch\<in>set (chunksFrom ids i). ch \<noteq> [] \<and> length ch \<le> chunkSize"
proof (induction ids i rule: chunksFrom.induct)
  case (1 ids i)
  show ?case
  proof (cases "i < length ids")
    case True
    then show ?thesis using "1.IH" by (subst chunksFrom.simps) (auto simp: chunkSize_def)
  next
    case False
    then show ?thesis by (subst chunksFrom.simps) simp
  qed
qed

lemma chunksFrom_full:
  "\<forall>ch\<in>set (butlast (chunksFrom ids i)). length ch = chunkSize"
proof (induction ids i rule: chunksFrom.induct)
  case (1 ids i)
  show ?case
  proof (cases "i < length ids")
    case True
    note lt = this
    show ?thesis
    proof (cases "i + chunkSize < length ids")
      case True
      then have "length (take chunkSize (drop i ids)) = chunkSize" by simp
      moreover have "chunksFrom ids (i + chunkSize) \<noteq> []"
        using True by (subst chunksFrom.simps) simp
      ultimately show ?thesis using lt "1.IH" by (subst chunksFrom.simps) simp
    next
      case False
      then have "chunksFrom ids (i + chunkSize) = []" by (subst chunksFrom.simps) simp
      then show ?thesis using lt by (subst chunksFrom.simps) simp
    qed
  next
    case False
    then show ?thesis by (subst chunksFrom.simps) simp
  qed
qed

lemma chunksFrom_Nil: "chunksFrom [] 0 = []"
  by (subst chunksFrom.simps) simp

lemma enrichWithTaxaData_requests:
  "snd (enrichWithTaxaData fetch obsList) = chunksFrom (taxonIds obsList) 0"
  by (simp add: enrichWithTaxaData_def taxonIds_def Let_def enrichLoop_chunks chunksFrom_Nil)

lemma set_map_filter_opt': "set (List.map_filter f xs) = {y. \<exists>x\<in>set xs. f x = Some y}"
  by (induction xs) (auto simp: List.map_filter_simps split: option.splits)

lemma set_add_all_set: "set (set_add_all acc xs) = set acc \<union> set xs"
  by (induction xs arbitrary: acc) auto

lemma taxonIds_Nil:
  "taxonIds obsList = [] \<Longrightarrow> ob \<in> set obsList \<Longrightarrow> taxonId ob = None"
proof -
  assume e: "taxonIds obsList = []" and m: "ob \<in> set obsList"
  have "set (taxonIds obsList) = {y. \<exists>x\<in>set obsList. taxonId x = Some y}"
    by (simp add: taxonIds_def new_Set_def set_add_all_set set_map_filter_opt')
  with e m show ?thesis by (cases "taxonId ob") auto
qed

lemma enrichWithTaxaData_result:
  assumes "\<forall>ob\<in>set obsList. familyName ob = None \<and> broadGroup ob = None"
  shows "fst (enrichWithTaxaData fetch obsList)
           = map (enrichedWith (foldl recordTaxon (Map.empty, Map.empty) (resolvedTaxa fetch obsList)))
               obsList"
proof (cases "taxonIds obsList = []")
  case True
  have "\<And>m ob. ob \<in> set obsList \<Longrightarrow> enrichedWith m ob = ob"
    using assms taxonIds_Nil [OF True] by (simp add: enrichedWith_def lookupId_def)
  then have "map (enrichedWith (foldl recordTaxon (Map.empty, Map.empty) (resolvedTaxa fetch obsList))) obsList
               = obsList"
    by (simp add: map_idI)
  moreover have "fst (enrichWithTaxaData fetch obsList) = obsList"
    using True by (simp add: enrichWithTaxaData_def taxonIds_def)
  ultimately show ?thesis by simp
next
  case False
  then show ?thesis
    by (simp add: enrichWithTaxaData_def taxonIds_def [symmetric] Let_def enrichLoop_chunks
          resolvedTaxa_def enrichedWith_def [abs_def])
qed


lemma recordTaxon_other:
  "t_id t \<noteq> i \<Longrightarrow> fst (recordTaxon m t) i = fst m i \<and> snd (recordTaxon m t) i = snd m i"
  by (simp add: recordTaxon_def Let_def)

lemma recordTaxon_at:
  "fst (recordTaxon m t) (t_id t) = (if truthy (familyOf t) then familyOf t else fst m (t_id t))
   \<and> snd (recordTaxon m t) (t_id t)
       = (if truthy (broadGroupOf t) then broadGroupOf t else snd m (t_id t))"
  by (simp add: recordTaxon_def Let_def)

lemma foldl_recordTaxon_unresolved:
  "i \<notin> t_id ` set taxa \<Longrightarrow>
     fst (foldl recordTaxon m taxa) i = fst m i \<and> snd (foldl recordTaxon m taxa) i = snd m i"
proof (induction taxa arbitrary: m)
  case Nil
  show ?case by simp
next
  case (Cons t taxa)
  then have "t_id t \<noteq> i" "i \<notin> t_id ` set taxa" by auto
  then show ?case using Cons.IH [of "recordTaxon m t"] recordTaxon_other [of t i m] by simp
qed

lemma foldl_recordTaxon_single:
  assumes "filter (\<lambda>t. t_id t = i) taxa = [t]"
  shows "fst (foldl recordTaxon m taxa) i = (if truthy (familyOf t) then familyOf t else fst m i)
       \<and> snd (foldl recordTaxon m taxa) i = (if truthy (broadGroupOf t) then broadGroupOf t else snd m i)"
  using assms
proof (induction taxa arbitrary: m)
  case Nil
  then show ?case by simp
next
  case (Cons a taxa)
  show ?case
  proof (cases "t_id a = i")
    case True
    with Cons.prems have a: "a = t" and rest: "filter (\<lambda>t. t_id t = i) taxa = []" by auto
    from rest have "i \<notin> t_id ` set taxa" by (auto simp: filter_empty_conv)
    then have "fst (foldl recordTaxon (recordTaxon m a) taxa) i = fst (recordTaxon m a) i
             \<and> snd (foldl recordTaxon (recordTaxon m a) taxa) i = snd (recordTaxon m a) i"
      by (rule foldl_recordTaxon_unresolved)
    then show ?thesis using True a recordTaxon_at [of m t] by simp
  next
    case False
    with Cons.prems have "filter (\<lambda>t. t_id t = i) taxa = [t]" by simp
    then show ?thesis using Cons.IH [of "recordTaxon m a"] recordTaxon_other [of a i m] False
      by simp
  qed
qed

lemma chunkFails_no_taxa: "chunkFails fetch ch \<Longrightarrow> chunkTaxa fetch ch = []"
  by (auto simp: chunkFails_def chunkTaxa_def split: fetch_outcome.splits json_body.splits option.splits)

lemma enrichedWith_unresolved:
  assumes "\<forall>i. taxonId ob = Some i \<longrightarrow> i \<notin> t_id ` set taxa"
  shows "familyName (enrichedWith (foldl recordTaxon (Map.empty, Map.empty) taxa) ob) = None
       \<and> broadGroup (enrichedWith (foldl recordTaxon (Map.empty, Map.empty) taxa) ob) = None"
proof (cases "taxonId ob")
  case None
  then show ?thesis by (simp add: enrichedWith_def lookupId_def)
next
  case (Some i)
  with assms have "i \<notin> t_id ` set taxa" by simp
  from foldl_recordTaxon_unresolved [OF this, of "(Map.empty, Map.empty)"] Some
  show ?thesis by (simp add: enrichedWith_def lookupId_def js_or_def truthy_def)
qed

lemma enrichedWith_resolved:
  assumes "taxonId ob = Some i" and "filter (\<lambda>t. t_id t = i) taxa = [t]"
  shows "familyName (enrichedWith (foldl recordTaxon (Map.empty, Map.empty) taxa) ob)
           = js_or (familyOf t) None
       \<and> broadGroup (enrichedWith (foldl recordTaxon (Map.empty, Map.empty) taxa) ob)
           = js_or (broadGroupOf t) None"
  using foldl_recordTaxon_single [OF assms(2), of "(Map.empty, Map.empty)"] assms(1)
  by (simp add: enrichedWith_def lookupId_def js_or_def truthy_def)

text \<open>
  C7. \<^verbatim>\<open>enrichWithTaxaData\<close> requests the distinct taxon ids in chunks of 30: the
  requested chunks, concatenated, are the ids; none is empty or longer than 30 and all
  but the last have exactly 30. A chunk whose request is rejected, whose response is not
  OK or whose body cannot be read contributes no taxa and stops nothing: the same chunks
  are requested even when every request is rejected, and the result is the enrichment by
  the taxa of the chunks that succeeded. No error leaves the function. An observation
  whose taxon is not among the taxa returned keeps familyName and broadGroup null; one
  whose taxon was returned (once) gets the family and broad group of that taxon.
\<close>

theorem enrichment_chunks:
  assumes "\<forall>ob\<in>set obsList. familyName ob = None \<and> broadGroup ob = None"
  shows "concat (snd (enrichWithTaxaData fetch obsList)) = taxonIds obsList
       \<and> (\<forall>ch\<in>set (snd (enrichWithTaxaData fetch obsList)). ch \<noteq> [] \<and> length ch \<le> 30)
       \<and> (\<forall>ch\<in>set (butlast (snd (enrichWithTaxaData fetch obsList))). length ch = 30)
       \<and> snd (enrichWithTaxaData fetch obsList) = snd (enrichWithTaxaData (\<lambda>ch. FetchRejected) obsList)
       \<and> (\<forall>ch. chunkFails fetch ch \<longrightarrow> chunkTaxa fetch ch = [])
       \<and> resolvedTaxa fetch obsList
           = concat (map (chunkTaxa fetch) (snd (enrichWithTaxaData fetch obsList)))
       \<and> fst (enrichWithTaxaData fetch obsList)
           = map (enrichedWith (foldl recordTaxon (Map.empty, Map.empty) (resolvedTaxa fetch obsList)))
               obsList
       \<and> map taxonId (fst (enrichWithTaxaData fetch obsList)) = map taxonId obsList
       \<and> (\<forall>ob'\<in>set (fst (enrichWithTaxaData fetch obsList)).
             (\<forall>i. taxonId ob' = Some i \<longrightarrow> i \<notin> t_id ` set (resolvedTaxa fetch obsList))
               \<longrightarrow> familyName ob' = None \<and> broadGroup ob' = None)
       \<and> (\<forall>ob'\<in>set (fst (enrichWithTaxaData fetch obsList)). \<forall>i t.
             taxonId ob' = Some i \<and> filter (\<lambda>t. t_id t = i) (resolvedTaxa fetch obsList) = [t]
               \<longrightarrow> familyName ob' = js_or (familyOf t) None
                 \<and> broadGroup ob' = js_or (broadGroupOf t) None)"
proof -
  let ?M = "foldl recordTaxon (Map.empty, Map.empty) (resolvedTaxa fetch obsList)"
  have req: "\<And>f. snd (enrichWithTaxaData f obsList) = chunksFrom (taxonIds obsList) 0"
    by (rule enrichWithTaxaData_requests)
  have c1: "concat (snd (enrichWithTaxaData fetch obsList)) = taxonIds obsList"
    by (simp add: req chunksFrom_concat)
  have c2: "\<forall>ch\<in>set (snd (enrichWithTaxaData fetch obsList)). ch \<noteq> [] \<and> length ch \<le> 30"
    using chunksFrom_sizes [of "taxonIds obsList" 0] by (simp add: req chunkSize_def)
  have c3: "\<forall>ch\<in>set (butlast (snd (enrichWithTaxaData fetch obsList))). length ch = 30"
    using chunksFrom_full [of "taxonIds obsList" 0] by (simp add: req chunkSize_def)
  have c4: "snd (enrichWithTaxaData fetch obsList) = snd (enrichWithTaxaData (\<lambda>ch. FetchRejected) obsList)"
    by (simp add: req)
  have c5: "\<forall>ch. chunkFails fetch ch \<longrightarrow> chunkTaxa fetch ch = []"
    by (simp add: chunkFails_no_taxa)
  have c6: "resolvedTaxa fetch obsList
           = concat (map (chunkTaxa fetch) (snd (enrichWithTaxaData fetch obsList)))"
    by (simp add: req resolvedTaxa_def)
  have c7: "fst (enrichWithTaxaData fetch obsList) = map (enrichedWith ?M) obsList"
    using assms by (rule enrichWithTaxaData_result)
  have tid: "\<And>ob. taxonId (enrichedWith ?M ob) = taxonId ob" by (simp add: enrichedWith_def)
  have c8: "map taxonId (fst (enrichWithTaxaData fetch obsList)) = map taxonId obsList"
    by (simp add: c7 tid)
  have c9: "\<forall>ob'\<in>set (fst (enrichWithTaxaData fetch obsList)).
             (\<forall>i. taxonId ob' = Some i \<longrightarrow> i \<notin> t_id ` set (resolvedTaxa fetch obsList))
               \<longrightarrow> familyName ob' = None \<and> broadGroup ob' = None"
    unfolding c7 using enrichedWith_unresolved [of _ "resolvedTaxa fetch obsList"] tid
    by auto
  have c10: "\<forall>ob'\<in>set (fst (enrichWithTaxaData fetch obsList)). \<forall>i t.
             taxonId ob' = Some i \<and> filter (\<lambda>t. t_id t = i) (resolvedTaxa fetch obsList) = [t]
               \<longrightarrow> familyName ob' = js_or (familyOf t) None
                 \<and> broadGroup ob' = js_or (broadGroupOf t) None"
    unfolding c7 using enrichedWith_resolved [of _ _ "resolvedTaxa fetch obsList"] tid
    by auto
  from c1 c2 c3 c4 c5 c6 c7 c8 c9 c10 show ?thesis by blast
qed

theorem enrichment_chunks_witness:
  "list_all (\<lambda>ob. familyName ob = None \<and> broadGroup ob = None) manyObs
   \<and> map length (snd (enrichWithTaxaData sampleFetch manyObs)) = [30, 2]
   \<and> concat (snd (enrichWithTaxaData sampleFetch manyObs)) = taxonIds manyObs
   \<and> chunkFails sampleFetch [1 ..< 31] \<and> \<not> chunkFails sampleFetch [31 ..< 33]
   \<and> chunkFails notOkFetch [31 ..< 33]
   \<and> map familyName (fst (enrichWithTaxaData notOkFetch (drop 30 manyObs))) = [None, None]
   \<and> taxonId (hd (fst (enrichWithTaxaData sampleFetch manyObs))) = Some 1
   \<and> 1 \<notin> t_id ` set (resolvedTaxa sampleFetch manyObs)
   \<and> familyName (hd (fst (enrichWithTaxaData sampleFetch manyObs))) = None
   \<and> broadGroup (hd (fst (enrichWithTaxaData sampleFetch manyObs))) = None
   \<and> map familyName (fst (enrichWithTaxaData sampleFetch manyObs))
       = replicate 30 None @ [Some ''Carabidae'', Some ''Carabidae'']
   \<and> map broadGroup (fst (enrichWithTaxaData sampleFetch manyObs))
       = replicate 30 None @ [Some ''Insecta'', Some ''Insecta'']"
proof -
  have h: "list_all (\<lambda>ob. familyName ob = None \<and> broadGroup ob = None) manyObs" by code_simp
  then have h': "\<forall>ob\<in>set manyObs. familyName ob = None \<and> broadGroup ob = None"
    by (simp add: list_all_iff)
  have l: "map length (snd (enrichWithTaxaData sampleFetch manyObs)) = [30, 2]" by code_simp
  have f1: "chunkFails sampleFetch [1 ..< 31]" by code_simp
  have f2: "\<not> chunkFails sampleFetch [31 ..< 33]" by code_simp
  have f3: "chunkFails notOkFetch [31 ..< 33]" by code_simp
  have f4: "map familyName (fst (enrichWithTaxaData notOkFetch (drop 30 manyObs))) = [None, None]"
    by code_simp
  have t: "taxonId (hd (fst (enrichWithTaxaData sampleFetch manyObs))) = Some 1" by code_simp
  have n: "1 \<notin> t_id ` set (resolvedTaxa sampleFetch manyObs)" by code_simp
  have m: "hd (fst (enrichWithTaxaData sampleFetch manyObs))
             \<in> set (fst (enrichWithTaxaData sampleFetch manyObs))" by code_simp
  have fam: "map familyName (fst (enrichWithTaxaData sampleFetch manyObs))
       = replicate 30 None @ [Some ''Carabidae'', Some ''Carabidae'']" by code_simp
  have bg: "map broadGroup (fst (enrichWithTaxaData sampleFetch manyObs))
       = replicate 30 None @ [Some ''Insecta'', Some ''Insecta'']" by code_simp
  note inst = enrichment_chunks [OF h', of sampleFetch]
  from inst have c: "concat (snd (enrichWithTaxaData sampleFetch manyObs)) = taxonIds manyObs"
    by blast
  from inst m t n have "familyName (hd (fst (enrichWithTaxaData sampleFetch manyObs))) = None
     \<and> broadGroup (hd (fst (enrichWithTaxaData sampleFetch manyObs))) = None"
    by auto
  with h l c f1 f2 f3 f4 t n fam bg show ?thesis by blast
qed

section \<open>Properties of the question generator\<close>

lemma collapseGroups_snoc:
  "collapseGroups lvl (xs @ [x]) = addToGroups lvl (collapseGroups lvl xs) x"
  by (simp add: collapseGroups_def)

lemma collapseGroups_Nil [simp]: "collapseGroups lvl [] = []"
  by (simp add: collapseGroups_def)

lemma addToGroups_ok:
  "groupsOk lvl xs gs \<Longrightarrow> groupsOk lvl (xs @ [x]) (addToGroups lvl gs x)"
  by (auto simp: groupsOk_def addToGroups_def split: option.splits)

lemma collapseGroups_ok: "groupsOk lvl xs (collapseGroups lvl xs)"
proof (induction xs rule: rev_induct)
  case Nil
  show ?case by (simp add: groupsOk_def)
next
  case (snoc x xs)
  then show ?case by (simp add: collapseGroups_snoc addToGroups_ok)
qed

lemma addToGroups_labels:
  "label ` set (addToGroups lvl gs x) =
     label ` set gs \<union> {l. l \<noteq> [] \<and> getGroupLabelForObs lvl x = Some l}"
  by (auto simp: addToGroups_def split: option.splits)

lemma collapseGroups_labels:
  "label ` set (collapseGroups lvl xs) =
     {l. l \<noteq> [] \<and> (\<exists>ob\<in>set xs. getGroupLabelForObs lvl ob = Some l)}"
proof (induction xs rule: rev_induct)
  case Nil
  show ?case by simp
next
  case (snoc x xs)
  then show ?case by (auto simp: collapseGroups_snoc addToGroups_labels)
qed

lemma addToGroups_skip:
  "\<not> truthy (getGroupLabelForObs lvl x) \<Longrightarrow> addToGroups lvl gs x = gs"
  by (auto simp: addToGroups_def truthy_def split: option.splits)

lemma collapseGroups_drop:
  "\<not> truthy (getGroupLabelForObs lvl x) \<Longrightarrow>
     collapseGroups lvl (xs @ x # ys) = collapseGroups lvl (xs @ ys)"
  by (simp add: collapseGroups_def addToGroups_skip)

lemma filter_same_key:
  "distinct (map f xs) \<Longrightarrow> x \<in> set xs \<Longrightarrow> filter (\<lambda>y. f y = f x) xs = [x]"
proof (induction xs)
  case Nil
  then show ?case by simp
next
  case (Cons a xs)
  show ?case
  proof (cases "a = x")
    case True
    have "\<forall>y\<in>set xs. f y \<noteq> f x" using Cons.prems(1) True by (auto simp: image_iff)
    then have "filter (\<lambda>y. f y = f x) xs = []" by (simp add: filter_empty_conv)
    with True show ?thesis by simp
  next
    case False
    with Cons.prems have x: "x \<in> set xs" by simp
    with Cons.prems(1) have "f a \<noteq> f x" by auto
    moreover have "filter (\<lambda>y. f y = f x) xs = [x]" using Cons.IH Cons.prems(1) x by simp
    ultimately show ?thesis by simp
  qed
qed

lemma length_otherGroups:
  assumes "distinct (map label groups)" and "g \<in> set groups"
  shows "length (otherGroups groups g) = length groups - 1"
proof -
  have "length (filter (\<lambda>y. label y = label g) groups)
          + length (filter (\<lambda>y. \<not> label y = label g) groups) = length groups"
    by (rule sum_length_filter_compl)
  moreover have "filter (\<lambda>y. label y = label g) groups = [g]"
    using assms by (rule filter_same_key)
  ultimately show ?thesis by (simp add: otherGroups_def)
qed

lemma sameBroad_filter_other:
  "sameBroadCandidates groups g =
     filter (\<lambda>x. truthy (g_broadGroup g) \<and> g_broadGroup x = g_broadGroup g) (otherGroups groups g)"
  by (simp add: sameBroadCandidates_def otherGroups_def conj_commute)

lemma length_sameBroad_le:
  "length (sameBroadCandidates groups g) \<le> length (otherGroups groups g)"
  by (simp add: sameBroad_filter_other)

lemma candidateGroups_subset: "set (candidateGroups groups g) \<subseteq> set (otherGroups groups g)"
  by (auto simp: candidateGroups_def sameBroad_filter_other)

lemma candidateGroups_distinct:
  "distinct (map label groups) \<Longrightarrow> distinct (map label (candidateGroups groups g))"
  by (simp add: candidateGroups_def sameBroadCandidates_def otherGroups_def distinct_map_filter)

lemma candidateGroups_min:
  assumes "distinct (map label groups)" and "g \<in> set groups"
  shows "min (OPTIONS_PER_QUESTION - 1) (length (candidateGroups groups g))
         = min (OPTIONS_PER_QUESTION - 1) (length groups - 1)"
proof (cases "length (sameBroadCandidates groups g) < OPTIONS_PER_QUESTION - 1")
  case True
  then show ?thesis by (simp add: candidateGroups_def length_otherGroups [OF assms])
next
  case False
  moreover have "length (sameBroadCandidates groups g) \<le> length groups - 1"
    using length_sameBroad_le [of groups g] length_otherGroups [OF assms] by simp
  ultimately show ?thesis by (simp add: candidateGroups_def)
qed

lemma distinct_map_submset:
  assumes "mset xs \<subseteq># mset ys" and "distinct (map f ys)"
  shows "distinct (map f xs)"
proof -
  have sub: "mset (map f xs) \<subseteq># mset (map f ys)"
    using assms(1) by (simp add: image_mset_subseteq_mono)
  have "\<And>a. count (mset (map f xs)) a \<le> count (mset (map f ys)) a"
    using sub by (rule mset_subset_eq_count)
  moreover have "\<And>a. count (mset (map f ys)) a \<le> 1"
    using assms(2) by (simp add: distinct_count_atmost_1)
  ultimately have "\<And>a. count (mset (map f xs)) a \<le> 1" by (meson order_trans)
  then show ?thesis
    unfolding distinct_count_atmost_1
    by (metis count_mset_0_iff le_neq_implies_less less_one)
qed

lemma distinct_member_count:
  "distinct xs \<Longrightarrow> x \<in> set xs \<Longrightarrow> count_list xs x = 1"
  by (induction xs) auto

lemma buildQuestion_correct: "correct (fst (buildQuestion rnd c groups g)) = obs g"
  by (simp add: buildQuestion_def split: prod.splits)

lemma buildQuestion_options:
  "\<exists>sh. options (fst (buildQuestion rnd c groups g)) = map obs sh \<and>
        mset sh = mset (g # fst (distractorGroups rnd c groups g))"
proof -
  obtain ds c1 where ds: "distractorGroups rnd c groups g = (ds, c1)"
    by (cases "distractorGroups rnd c groups g")
  obtain sh c2 where sh: "shuffleArray rnd c1 (g # ds) = (sh, c2)"
    by (cases "shuffleArray rnd c1 (g # ds)")
  have "mset sh = mset (g # ds)" using shuffleArray_mset [of rnd c1 "g # ds"] sh by simp
  moreover have "options (fst (buildQuestion rnd c groups g)) = map obs sh"
    using ds sh by (simp add: buildQuestion_def)
  moreover have "fst (distractorGroups rnd c groups g) = ds" using ds by simp
  ultimately show ?thesis by blast
qed

lemma distractorGroups_length:
  "length (fst (distractorGroups rnd c groups g))
     = min (OPTIONS_PER_QUESTION - 1) (length (candidateGroups groups g))"
  by (simp add: distractorGroups_def pickRandomSubset_length)

lemma distractorGroups_mset:
  "mset (fst (distractorGroups rnd c groups g)) \<subseteq># mset (candidateGroups groups g)"
  by (simp add: distractorGroups_def pickRandomSubset_mset)

lemma distractorGroups_set:
  "set (fst (distractorGroups rnd c groups g)) \<subseteq> set (candidateGroups groups g)"
  by (simp add: distractorGroups_def pickRandomSubset_set)

lemma optionLabel_group:
  "groupsOk lvl xs groups \<Longrightarrow> x \<in> set groups \<Longrightarrow> optionLabel lvl (obs x) = label x"
  by (auto simp: groupsOk_def optionLabel_def)

lemma buildQuestion_labels:
  assumes ok: "groupsOk lvl xs groups" and g: "g \<in> set groups"
  shows "length (options (fst (buildQuestion rnd c groups g)))
           = min OPTIONS_PER_QUESTION (length groups)"
    and "distinct (map (optionLabel lvl) (options (fst (buildQuestion rnd c groups g))))"
    and "count_list (map (optionLabel lvl) (options (fst (buildQuestion rnd c groups g))))
           (optionLabel lvl (correct (fst (buildQuestion rnd c groups g)))) = 1"
proof -
  let ?ds = "fst (distractorGroups rnd c groups g)"
  let ?q = "fst (buildQuestion rnd c groups g)"
  from ok have dl: "distinct (map label groups)" by (simp add: groupsOk_def)
  obtain sh where sh: "options ?q = map obs sh" "mset sh = mset (g # ?ds)"
    using buildQuestion_options by blast
  have ds_other: "set ?ds \<subseteq> set (otherGroups groups g)"
    using distractorGroups_set candidateGroups_subset by blast
  then have ds_groups: "set ?ds \<subseteq> set groups" by (auto simp: otherGroups_def)
  have set_sh: "set sh = set (g # ?ds)" using sh(2) by (metis set_mset_mset)
  then have sh_groups: "set sh \<subseteq> set groups" using ds_groups g by auto
  have len: "length sh = Suc (length ?ds)" using sh(2) by (metis length_Cons size_mset)
  have "length groups \<noteq> 0" using g by auto
  then show "length (options ?q) = min OPTIONS_PER_QUESTION (length groups)"
    using sh(1) len distractorGroups_length [of rnd c groups g] candidateGroups_min [OF dl g]
    by (simp add: OPTIONS_PER_QUESTION_def min_def split: if_splits)
  have "distinct (map label ?ds)"
    using distractorGroups_mset candidateGroups_distinct [OF dl] by (rule distinct_map_submset)
  moreover have "label g \<notin> label ` set ?ds" using ds_other by (auto simp: otherGroups_def)
  ultimately have "distinct (map label (g # ?ds))" by simp
  moreover have "mset (map label sh) = mset (map label (g # ?ds))" using sh(2) by simp
  ultimately have dsh: "distinct (map label sh)" by (metis mset_eq_imp_distinct_iff)
  have lab: "map (optionLabel lvl) (options ?q) = map label sh"
    using sh(1) sh_groups optionLabel_group [OF ok] by auto
  show "distinct (map (optionLabel lvl) (options ?q))" using lab dsh by simp
  have "optionLabel lvl (correct ?q) = label g"
    using optionLabel_group [OF ok g] by (simp add: buildQuestion_correct)
  moreover have "label g \<in> set (map label sh)" using set_sh by auto
  ultimately show "count_list (map (optionLabel lvl) (options ?q)) (optionLabel lvl (correct ?q)) = 1"
    using lab dsh by (simp add: distinct_member_count)
qed


lemma buildQuestions_length [simp]:
  "length (buildQuestions rnd c groups chosen) = length chosen"
  by (induction chosen arbitrary: c) (simp_all split: prod.splits)

lemma buildQuestions_correct:
  "map correct (buildQuestions rnd c groups chosen) = map obs chosen"
proof (induction chosen arbitrary: c)
  case Nil
  show ?case by simp
next
  case (Cons g chosen)
  obtain q c' where q: "buildQuestion rnd c groups g = (q, c')"
    by (cases "buildQuestion rnd c groups g")
  then have "correct q = obs g" using buildQuestion_correct [of rnd c groups g] by simp
  then show ?case using q Cons.IH by simp
qed

lemma buildQuestions_from:
  "q \<in> set (buildQuestions rnd c groups chosen) \<Longrightarrow>
     \<exists>g\<in>set chosen. \<exists>c'. q = fst (buildQuestion rnd c' groups g)"
proof (induction chosen arbitrary: c)
  case Nil
  then show ?case by simp
next
  case (Cons g chosen)
  obtain q0 c0 where q0: "buildQuestion rnd c groups g = (q0, c0)"
    by (cases "buildQuestion rnd c groups g")
  from Cons.prems q0 consider "q = q0" | "q \<in> set (buildQuestions rnd c0 groups chosen)"
    by auto
  then show ?case
  proof cases
    case 1
    then have "q = fst (buildQuestion rnd c groups g)" using q0 by simp
    then show ?thesis by auto
  next
    case 2
    then show ?thesis using Cons.IH by auto
  qed
qed

lemma buildQuestions_for:
  "g \<in> set chosen \<Longrightarrow>
     \<exists>c'. fst (buildQuestion rnd c' groups g) \<in> set (buildQuestions rnd c groups chosen)"
proof (induction chosen arbitrary: c)
  case Nil
  then show ?case by simp
next
  case (Cons x chosen)
  obtain q0 c0 where q0: "buildQuestion rnd c groups x = (q0, c0)"
    by (cases "buildQuestion rnd c groups x")
  show ?case
  proof (cases "g = x")
    case True
    have "fst (buildQuestion rnd c groups g) \<in> set (buildQuestions rnd c groups (x # chosen))"
      using True q0 by simp
    then show ?thesis by blast
  next
    case False
    with Cons.prems have "g \<in> set chosen" by simp
    then obtain c' where "fst (buildQuestion rnd c' groups g) \<in> set (buildQuestions rnd c0 groups chosen)"
      using Cons.IH by blast
    then have "fst (buildQuestion rnd c' groups g) \<in> set (buildQuestions rnd c groups (x # chosen))"
      using q0 by simp
    then show ?thesis by blast
  qed
qed

lemma chosenGroups_length:
  "length (fst (chosenGroups rnd c groups)) = min QUESTIONS_COUNT (length groups)"
  by (simp add: chosenGroups_def pickRandomSubset_length)

lemma chosenGroups_subset: "set (fst (chosenGroups rnd c groups)) \<subseteq> set groups"
  by (simp add: chosenGroups_def pickRandomSubset_set)

lemma chosenGroups_mset: "mset (fst (chosenGroups rnd c groups)) \<subseteq># mset groups"
  by (simp add: chosenGroups_def pickRandomSubset_mset)

lemma buildQuizQuestions_eq:
  "buildQuizQuestions lvl rnd c obsList =
     buildQuestions rnd (snd (chosenGroups rnd c (collapseGroups lvl obsList)))
       (collapseGroups lvl obsList) (fst (chosenGroups rnd c (collapseGroups lvl obsList)))"
proof (cases "collapseGroups lvl obsList = []")
  case True
  then show ?thesis
    by (simp add: buildQuizQuestions_def chosenGroups_def pickRandomSubset_def)
next
  case False
  then show ?thesis by (simp add: buildQuizQuestions_def Let_def case_prod_beta)
qed

lemma question_from_group:
  assumes "q \<in> set (buildQuizQuestions lvl rnd c obsList)"
  shows "\<exists>g\<in>set (collapseGroups lvl obsList). \<exists>c'.
           q = fst (buildQuestion rnd c' (collapseGroups lvl obsList) g)"
proof -
  from assms obtain g c' where
    "g \<in> set (fst (chosenGroups rnd c (collapseGroups lvl obsList)))"
    "q = fst (buildQuestion rnd c' (collapseGroups lvl obsList) g)"
    unfolding buildQuizQuestions_eq using buildQuestions_from by blast
  then show ?thesis using chosenGroups_subset by blast
qed

lemma set_map_filter_opt: "set (List.map_filter f xs) = {y. \<exists>x\<in>set xs. f x = Some y}"
  by (induction xs) (auto simp: List.map_filter_simps split: option.splits)

lemma groupLabels_iff:
  "l \<in> groupLabels lvl obsList \<longleftrightarrow>
     l \<noteq> [] \<and> (\<exists>ob\<in>set obsList. getGroupLabelForObs lvl ob = Some l)"
  by (auto simp: groupLabels_def set_map_filter_opt)

lemma collapseGroups_groupLabels:
  "label ` set (collapseGroups lvl obsList) = groupLabels lvl obsList"
  unfolding collapseGroups_labels by (auto simp: groupLabels_iff)

lemma length_collapseGroups:
  "length (collapseGroups lvl obsList) = card (groupLabels lvl obsList)"
proof -
  have "distinct (map label (collapseGroups lvl obsList))"
    using collapseGroups_ok [of lvl obsList] by (simp add: groupsOk_def)
  then have "card (set (map label (collapseGroups lvl obsList)))
               = length (map label (collapseGroups lvl obsList))"
    by (rule distinct_card)
  then show ?thesis using collapseGroups_groupLabels [of lvl obsList] by simp
qed

lemma chosen_labels:
  assumes "groupsOk lvl xs groups"
  shows "map (optionLabel lvl) (map obs (fst (chosenGroups rnd c groups)))
           = map label (fst (chosenGroups rnd c groups))"
  using chosenGroups_subset [of rnd c groups] optionLabel_group [OF assms] by auto

lemma sameBroad_count:
  assumes dl: "distinct (map label groups)" and g: "g \<in> set groups"
      and b: "g_broadGroup g = Some b" "b \<noteq> []"
  shows "length (sameBroadCandidates groups g)
           = length (filter (\<lambda>x. g_broadGroup x = Some b) groups) - 1"
proof -
  let ?B = "filter (\<lambda>x. g_broadGroup x = Some b) groups"
  have dB: "distinct (map label ?B)" using dl by (simp add: distinct_map_filter)
  have gB: "g \<in> set ?B" using g b by simp
  have "otherGroups ?B g = sameBroadCandidates groups g"
    using b by (auto simp: otherGroups_def sameBroadCandidates_def truthy_def intro: filter_cong)
  then show ?thesis using length_otherGroups [OF dB gB] by simp
qed

lemma question_obs_in_groups:
  assumes "q \<in> set (buildQuizQuestions lvl rnd c obsList)"
  shows "correct q \<in> obs ` set (collapseGroups lvl obsList)
         \<and> set (options q) \<subseteq> obs ` set (collapseGroups lvl obsList)"
proof -
  let ?G = "collapseGroups lvl obsList"
  obtain g c' where g: "g \<in> set ?G" and qe: "q = fst (buildQuestion rnd c' ?G g)"
    using question_from_group [OF assms] by blast
  let ?ds = "fst (distractorGroups rnd c' ?G g)"
  obtain sh where sh: "options q = map obs sh" "mset sh = mset (g # ?ds)"
    unfolding qe using buildQuestion_options by blast
  have "set sh = set (g # ?ds)" using sh(2) by (metis set_mset_mset)
  moreover have "set ?ds \<subseteq> set ?G"
    using distractorGroups_set [of rnd c' ?G g] candidateGroups_subset [of ?G g]
    by (auto simp: otherGroups_def)
  ultimately have "set sh \<subseteq> set ?G" using g by auto
  then have "set (options q) \<subseteq> obs ` set ?G" using sh(1) by auto
  moreover have "correct q = obs g" unfolding qe by (rule buildQuestion_correct)
  ultimately show ?thesis using g by auto
qed

lemma unlabelled_not_in_groups:
  assumes "\<not> truthy (getGroupLabelForObs lvl x)"
  shows "x \<notin> obs ` set (collapseGroups lvl obsList)"
proof
  assume "x \<in> obs ` set (collapseGroups lvl obsList)"
  then obtain g where "g \<in> set (collapseGroups lvl obsList)" "x = obs g" by auto
  then have "getGroupLabelForObs lvl x = Some (label g)" "label g \<noteq> []"
    using collapseGroups_ok [of lvl obsList] by (auto simp: groupsOk_def)
  with assms show False by (simp add: truthy_def)
qed

section \<open>Properties of the hybrid generator\<close>

lemma collapseGroupsH_snoc:
  "collapseGroupsH lvl (xs @ [x]) = addToGroupsH lvl (collapseGroupsH lvl xs) x"
  by (simp add: collapseGroupsH_def)

lemma addToGroupsH_ok: "groupsOkH lvl gs \<Longrightarrow> groupsOkH lvl (addToGroupsH lvl gs x)"
  by (auto simp: groupsOkH_def addToGroupsH_def split: option.splits)

lemma collapseGroupsH_ok: "groupsOkH lvl (collapseGroupsH lvl xs)"
proof (induction xs rule: rev_induct)
  case Nil
  show ?case by (simp add: groupsOkH_def collapseGroupsH_def)
next
  case (snoc x xs)
  then show ?case by (simp add: collapseGroupsH_snoc addToGroupsH_ok)
qed

lemma hybridLoop_length:
  "length questions \<le> QUESTIONS_COUNT \<Longrightarrow>
     length (hybridLoop lvl ext rnd groups rest questions c)
       \<le> min QUESTIONS_COUNT (length questions + length rest)"
proof (induction rest arbitrary: questions c)
  case Nil
  then show ?case by simp
next
  case (Cons g rest)
  show ?case
  proof (cases "length questions \<ge> QUESTIONS_COUNT")
    case True
    then show ?thesis using Cons.prems by simp
  next
    case False
    obtain r c' where b: "hybridQuestion lvl ext rnd c groups g = (r, c')"
      by (cases "hybridQuestion lvl ext rnd c groups g")
    show ?thesis
    proof (cases r)
      case None
      have "length (hybridLoop lvl ext rnd groups rest questions c')
              \<le> min QUESTIONS_COUNT (length questions + length rest)"
        using Cons.prems by (rule Cons.IH)
      then show ?thesis using False b None by simp
    next
      case (Some q)
      have "length (hybridLoop lvl ext rnd groups rest (questions @ [q]) c')
              \<le> min QUESTIONS_COUNT (length (questions @ [q]) + length rest)"
        using False by (intro Cons.IH) simp
      then show ?thesis using False b Some by simp
    qed
  qed
qed

lemma hybridLoop_from:
  "q \<in> set (hybridLoop lvl ext rnd groups rest questions c) \<Longrightarrow>
     q \<in> set questions
     \<or> (\<exists>g\<in>set rest. \<exists>c0 c1. hybridQuestion lvl ext rnd c0 groups g = (Some q, c1))"
proof (induction rest arbitrary: questions c)
  case Nil
  then show ?case by simp
next
  case (Cons g rest)
  show ?case
  proof (cases "length questions \<ge> QUESTIONS_COUNT")
    case True
    then show ?thesis using Cons.prems by simp
  next
    case False
    obtain r c' where b: "hybridQuestion lvl ext rnd c groups g = (r, c')"
      by (cases "hybridQuestion lvl ext rnd c groups g")
    show ?thesis
    proof (cases r)
      case None
      then have "q \<in> set (hybridLoop lvl ext rnd groups rest questions c')"
        using Cons.prems False b by simp
      from Cons.IH [OF this] show ?thesis by auto
    next
      case (Some q0)
      then have "q \<in> set (hybridLoop lvl ext rnd groups rest (questions @ [q0]) c')"
        using Cons.prems False b by simp
      from Cons.IH [OF this] b Some show ?thesis by auto
    qed
  qed
qed

lemma hybridQuestion_Some:
  assumes "hybridQuestion lvl ext rnd c groups g = (Some q, c')" and "lvl \<noteq> Genus"
  shows "h_correct q = h_obs g \<and> neededDistractors \<le> length (projectCandidates groups g)
         \<and> truthy (hg_broadGroup g)"
  using assms
  by (auto simp: hybridQuestion_def Let_def split: if_splits prod.splits)

lemma hybridQuestion_skip:
  "lvl \<noteq> Genus \<Longrightarrow> length (projectCandidates groups g) < neededDistractors \<Longrightarrow>
     hybridQuestion lvl ext rnd c groups g = (None, c)"
  by (simp add: hybridQuestion_def Let_def)

lemma same_obs_same_group:
  assumes "groupsOkH lvl gs" "g \<in> set gs" "g' \<in> set gs" "h_obs g' = h_obs g"
  shows "h_label g' = h_label g"
proof -
  from assms(1-3) have "getGroupLabelForObsH lvl (h_obs g') = Some (h_label g')"
    and "getGroupLabelForObsH lvl (h_obs g) = Some (h_label g)"
    by (simp_all add: groupsOkH_def)
  with assms(4) show ?thesis by simp
qed

lemma hybrid_skips:
  assumes lvl: "lvl \<noteq> Genus"
      and g: "g \<in> set (collapseGroupsH lvl obsList)"
      and few: "length (projectCandidates (collapseGroupsH lvl obsList) g) < OPTIONS_PER_QUESTION - 1"
  shows "\<forall>q\<in>set (buildQuizQuestionsHybrid lvl ext rnd c obsList). h_correct q \<noteq> h_obs g"
proof
  fix q
  assume q: "q \<in> set (buildQuizQuestionsHybrid lvl ext rnd c obsList)"
  let ?G = "collapseGroupsH lvl obsList"
  have ok: "groupsOkH lvl ?G" by (rule collapseGroupsH_ok)
  from q g have "q \<in> set (hybridLoop lvl ext rnd ?G (fst (shuffleArray rnd c ?G)) []
                    (snd (shuffleArray rnd c ?G)))"
    by (auto simp: buildQuizQuestionsHybrid_def Let_def case_prod_beta split: if_splits)
  from hybridLoop_from [OF this] obtain g' c0 c1 where
    "g' \<in> set (fst (shuffleArray rnd c ?G))"
    and hq: "hybridQuestion lvl ext rnd c0 ?G g' = (Some q, c1)"
    by auto
  then have g': "g' \<in> set ?G" by simp
  from hybridQuestion_Some [OF hq lvl]
  have cq: "h_correct q = h_obs g'" and n: "neededDistractors \<le> length (projectCandidates ?G g')"
    by simp_all
  show "h_correct q \<noteq> h_obs g"
  proof
    assume "h_correct q = h_obs g"
    then have "h_obs g' = h_obs g" using cq by simp
    with ok g g' have lab: "h_label g' = h_label g" by (rule same_obs_same_group)
    have "g' = g"
      using ok g g' lab unfolding groupsOkH_def
      by (metis distinct_map inj_onD)
    with n few show False by (simp add: neededDistractors_def)
  qed
qed

lemma hybrid_count:
  "length (buildQuizQuestionsHybrid lvl ext rnd c obsList)
     \<le> min QUESTIONS_COUNT (length (collapseGroupsH lvl obsList))"
proof -
  let ?G = "collapseGroupsH lvl obsList"
  have "length (hybridLoop lvl ext rnd ?G (fst (shuffleArray rnd c ?G)) []
                    (snd (shuffleArray rnd c ?G)))
          \<le> min QUESTIONS_COUNT (length ([] :: hybrid_question list)
                + length (fst (shuffleArray rnd c ?G)))"
    by (rule hybridLoop_length) simp
  then show ?thesis
    by (simp add: buildQuizQuestionsHybrid_def Let_def case_prod_beta)
qed

section \<open>Properties of the sampling loop of the vocabulary builders\<close>

declare attemptLoop.simps [simp del]

lemma attemptLoop_bounds:
  "length questions \<le> QUESTIONS_COUNT \<Longrightarrow> attempts \<le> MAX_ATTEMPTS \<Longrightarrow>
     length (fst (attemptLoop body (questions, attempts, c))) \<le> QUESTIONS_COUNT
     \<and> snd (attemptLoop body (questions, attempts, c)) \<le> MAX_ATTEMPTS"
proof (induction body "(questions, attempts, c)" arbitrary: questions attempts c
       rule: attemptLoop.induct)
  case (1 body questions attempts c)
  show ?case
  proof (cases "length questions < QUESTIONS_COUNT \<and> attempts < MAX_ATTEMPTS")
    case False
    have "attemptLoop body (questions, attempts, c) = (questions, attempts)"
      by (subst attemptLoop.simps) (simp only: False if_False)
    then show ?thesis using "1.prems" by simp
  next
    case True
    obtain r c' where b: "body c = (r, c')" by (cases "body c")
    show ?thesis
    proof (cases r)
      case None
      have "length (fst (attemptLoop body (questions, attempts + 1, c'))) \<le> QUESTIONS_COUNT
            \<and> snd (attemptLoop body (questions, attempts + 1, c')) \<le> MAX_ATTEMPTS"
        using True b None "1.prems" by (intro "1.hyps"(1)) auto
      moreover have "attemptLoop body (questions, attempts, c)
                       = attemptLoop body (questions, attempts + 1, c')"
        by (subst attemptLoop.simps) (simp add: True b None)
      ultimately show ?thesis by simp
    next
      case (Some q)
      have "length (fst (attemptLoop body (questions @ [q], attempts + 1, c'))) \<le> QUESTIONS_COUNT
            \<and> snd (attemptLoop body (questions @ [q], attempts + 1, c')) \<le> MAX_ATTEMPTS"
        using True b Some "1.prems" by (intro "1.hyps"(2)) auto
      moreover have "attemptLoop body (questions, attempts, c)
                       = attemptLoop body (questions @ [q], attempts + 1, c')"
        by (subst attemptLoop.simps) (simp add: True b Some)
      ultimately show ?thesis by simp
    qed
  qed
qed

lemma attemptLoop_start:
  "length (fst (attemptLoop body ([], 0, c))) \<le> QUESTIONS_COUNT
   \<and> snd (attemptLoop body ([], 0, c)) \<le> MAX_ATTEMPTS"
  by (rule attemptLoop_bounds) simp_all

subsection \<open>The questions of the species builder\<close>

text \<open>
  The decimal rendering of a taxon id determines the id, so two options have the same key
  only if they have the same taxon id.
\<close>

lemma digits_of_nonempty: "digits_of n \<noteq> []"
  by (subst digits_of.simps) (simp del: digits_of.simps)

lemma digit_char_inj:
  "a < 10 \<Longrightarrow> b < 10 \<Longrightarrow> char_of (48 + a) = char_of (48 + (b::nat)) \<Longrightarrow> a = b"
proof -
  assume a: "a < 10" and b: "b < 10" and e: "char_of (48 + a) = char_of (48 + b)"
  from e have "(48 + a) mod 256 = (48 + b) mod 256"
    by (simp add: char_of_eq_iff take_bit_eq_mod)
  with a b show "a = b" by simp
qed

lemma digits_of_inj: "digits_of m = digits_of n \<Longrightarrow> m = n"
proof (induction m arbitrary: n rule: digits_of.induct)
  case (1 m)
  have em: "digits_of m = (if m < 10 then [char_of (48 + m)]
               else digits_of (m div 10) @ [char_of (48 + m mod 10)])"
    by (rule digits_of.simps)
  have en: "digits_of n = (if n < 10 then [char_of (48 + n)]
               else digits_of (n div 10) @ [char_of (48 + n mod 10)])"
    by (rule digits_of.simps)
  show ?case
  proof (cases "m < 10")
    case True
    show ?thesis
    proof (cases "n < 10")
      case n: True
      from "1.prems" em en True n have "char_of (48 + m) = char_of (48 + n)"
        by (simp del: digits_of.simps)
      with True n show ?thesis by (rule digit_char_inj)
    next
      case n: False
      from "1.prems" em en True n
      have "[char_of (48 + m)] = digits_of (n div 10) @ [char_of (48 + n mod 10)]"
        by (simp del: digits_of.simps)
      then have "digits_of (n div 10) = []" by (simp del: digits_of.simps)
      then show ?thesis using digits_of_nonempty by blast
    qed
  next
    case False
    show ?thesis
    proof (cases "n < 10")
      case n: True
      from "1.prems" em en False n
      have "digits_of (m div 10) @ [char_of (48 + m mod 10)] = [char_of (48 + n)]"
        by (simp del: digits_of.simps)
      then have "digits_of (m div 10) = []" by (simp del: digits_of.simps)
      then show ?thesis using digits_of_nonempty by blast
    next
      case n: False
      from "1.prems" em en False n
      have e: "digits_of (m div 10) @ [char_of (48 + m mod 10)]
                = digits_of (n div 10) @ [char_of (48 + n mod 10)]"
        by (simp del: digits_of.simps)
      then have d: "digits_of (m div 10) = digits_of (n div 10)"
        and c: "char_of (48 + m mod 10) = char_of (48 + n mod 10)"
        by (simp_all del: digits_of.simps)
      from d have q: "m div 10 = n div 10" using "1.IH" [OF False] by blast
      have "m mod 10 = n mod 10" by (rule digit_char_inj [OF _ _ c]) simp_all
      with q show ?thesis by (metis div_mult_mod_eq)
    qed
  qed
qed

lemma attemptLoop_all:
  "(\<And>c q c'. body c = (Some q, c') \<Longrightarrow> P q) \<Longrightarrow> \<forall>q\<in>set questions. P q \<Longrightarrow>
     \<forall>q\<in>set (fst (attemptLoop body (questions, attempts, c))). P q"
proof (induction body "(questions, attempts, c)" arbitrary: questions attempts c
       rule: attemptLoop.induct)
  case (1 body questions attempts c)
  show ?case
  proof (cases "length questions < QUESTIONS_COUNT \<and> attempts < MAX_ATTEMPTS")
    case False
    have "attemptLoop body (questions, attempts, c) = (questions, attempts)"
      by (subst attemptLoop.simps) (simp only: False if_False)
    then show ?thesis using "1.prems" by simp
  next
    case True
    obtain r c' where b: "body c = (r, c')" by (cases "body c")
    show ?thesis
    proof (cases r)
      case None
      have "\<forall>q\<in>set (fst (attemptLoop body (questions, attempts + 1, c'))). P q"
        using True b None "1.prems" by (intro "1.hyps"(1)) auto
      moreover have "attemptLoop body (questions, attempts, c)
                       = attemptLoop body (questions, attempts + 1, c')"
        by (subst attemptLoop.simps) (simp add: True b None)
      ultimately show ?thesis by simp
    next
      case (Some q)
      have "P q" using "1.prems"(1) [of c q c'] b Some by simp
      then have "\<forall>q\<in>set (fst (attemptLoop body (questions @ [q], attempts + 1, c'))). P q"
        using True b Some "1.prems" by (intro "1.hyps"(2)) auto
      moreover have "attemptLoop body (questions, attempts, c)
                       = attemptLoop body (questions @ [q], attempts + 1, c')"
        by (subst attemptLoop.simps) (simp add: True b Some)
      ultimately show ?thesis by simp
    qed
  qed
qed


lemma speciesAttempt_Some_eq:
  assumes "speciesAttempt G rnd c = (Some q, c')"
      and "G ! random_below rnd c (length G) = (gk, list)"
      and "correctEntry = list ! random_below rnd (c + 1) (length list)"
      and "pool = filter (\<lambda>s. sp_taxonId s \<noteq> sp_taxonId correctEntry) list"
  shows "neededDistractors < length list \<and> neededDistractors \<le> length pool
         \<and> v_options q
             = fst (shuffleArray rnd (snd (pickRandomSubset rnd (c + 1 + 1) pool neededDistractors))
                 (speciesOption correctEntry
                    # map speciesOption (fst (pickRandomSubset rnd (c + 1 + 1) pool neededDistractors))))
         \<and> answerKey (v_correct q) = digits_of (sp_taxonId correctEntry)"
  using assms(1) unfolding speciesAttempt_def assms(2) Let_def prod.case
    assms(3) [symmetric] assms(4) [symmetric]
  by (auto simp add: correctOf_def case_prod_beta simp del: digits_of.simps
           split: if_splits option.splits)


lemma mset_with_filter:
  assumes "x \<in> set xs" and "\<not> P x"
  shows "mset (x # filter P xs) \<subseteq># mset xs"
proof -
  have "x \<in># filter_mset (\<lambda>y. \<not> P y) (mset xs)" using assms by simp
  then have "{#x#} \<subseteq># filter_mset (\<lambda>y. \<not> P y) (mset xs)" by simp
  then have "{#x#} + filter_mset P (mset xs)
               \<subseteq># filter_mset (\<lambda>y. \<not> P y) (mset xs) + filter_mset P (mset xs)"
    by (rule mset_subset_eq_mono_add) simp
  also have "\<dots> = mset xs" by (metis add.commute multiset_partition)
  finally show ?thesis by simp
qed

lemma speciesAttempt_shape:
  assumes att: "speciesAttempt G rnd c = (Some q, c')" and ne: "G \<noteq> []"
  shows "\<exists>list correctEntry ds.
           list \<in> snd ` set G
         \<and> mset (correctEntry # ds) \<subseteq># mset list
         \<and> (\<forall>d\<in>set ds. sp_taxonId d \<noteq> sp_taxonId correctEntry)
         \<and> length ds = neededDistractors
         \<and> mset (v_options q) = mset (map speciesOption (correctEntry # ds))
         \<and> answerKey (v_correct q) = digits_of (sp_taxonId correctEntry)"
proof -
  obtain gk list where gl: "G ! random_below rnd c (length G) = (gk, list)"
    by (cases "G ! random_below rnd c (length G)")
  define correctEntry where "correctEntry = list ! random_below rnd (c + 1) (length list)"
  define pool where "pool = filter (\<lambda>s. sp_taxonId s \<noteq> sp_taxonId correctEntry) list"
  define ds where "ds = fst (pickRandomSubset rnd (c + 1 + 1) pool neededDistractors)"
  note eq = speciesAttempt_Some_eq [OF att gl correctEntry_def pool_def]
  have "random_below rnd c (length G) < length G" using ne by (simp add: random_below_less)
  then have "(gk, list) \<in> set G" using gl by (metis nth_mem)
  then have a: "list \<in> snd ` set G" by force
  from eq have big: "neededDistractors < length list" and enough: "neededDistractors \<le> length pool"
    and vo: "v_options q
             = fst (shuffleArray rnd (snd (pickRandomSubset rnd (c + 1 + 1) pool neededDistractors))
                 (speciesOption correctEntry
                    # map speciesOption (fst (pickRandomSubset rnd (c + 1 + 1) pool neededDistractors))))"
    and f: "answerKey (v_correct q) = digits_of (sp_taxonId correctEntry)"
    by blast+
  have "0 < length list" using big by (cases list) auto
  then have "random_below rnd (c + 1) (length list) < length list" by (rule random_below_less)
  then have mem: "correctEntry \<in> set list" unfolding correctEntry_def by (rule nth_mem)
  have sub: "mset ds \<subseteq># mset pool" unfolding ds_def by (rule pickRandomSubset_mset)
  have "mset (correctEntry # pool) \<subseteq># mset list"
    unfolding pool_def using mem by (rule mset_with_filter) simp
  moreover have "mset (correctEntry # ds) \<subseteq># mset (correctEntry # pool)" using sub by simp
  ultimately have b: "mset (correctEntry # ds) \<subseteq># mset list" by (rule subset_mset.order_trans [rotated])
  have "set ds \<subseteq> set pool" using sub by (metis set_mset_mono set_mset_mset)
  then have c: "\<forall>d\<in>set ds. sp_taxonId d \<noteq> sp_taxonId correctEntry"
    unfolding pool_def by auto
  have d: "length ds = neededDistractors"
    unfolding ds_def using enough by (simp add: pickRandomSubset_length)
  have e: "mset (v_options q) = mset (map speciesOption (correctEntry # ds))"
    unfolding vo ds_def [symmetric] by (simp only: shuffleArray_mset list.map)
  from a b c d e f show ?thesis by blast
qed

lemma species_question_shape:
  assumes "q \<in> set (fst (buildSpeciesQuizQuestionsFromVocab vocabByGroup rnd c))"
  shows "\<exists>list correctEntry ds.
           list \<in> snd ` set vocabByGroup
         \<and> mset (correctEntry # ds) \<subseteq># mset list
         \<and> (\<forall>d\<in>set ds. sp_taxonId d \<noteq> sp_taxonId correctEntry)
         \<and> length ds = neededDistractors
         \<and> mset (v_options q) = mset (map speciesOption (correctEntry # ds))
         \<and> answerKey (v_correct q) = digits_of (sp_taxonId correctEntry)"
proof -
  define G where "G = filter (\<lambda>(k, list). length list > neededDistractors) vocabByGroup"
  have sub: "snd ` set G \<subseteq> snd ` set vocabByGroup" unfolding G_def by auto
  show ?thesis
  proof (cases "G = []")
    case True
    then have "fst (buildSpeciesQuizQuestionsFromVocab vocabByGroup rnd c) = []"
      by (simp add: buildSpeciesQuizQuestionsFromVocab_def G_def [symmetric])
    with assms show ?thesis by simp
  next
    case False
    have res: "fst (buildSpeciesQuizQuestionsFromVocab vocabByGroup rnd c)
                 = fst (attemptLoop (speciesAttempt G rnd) ([], 0, c))"
      using False by (simp add: buildSpeciesQuizQuestionsFromVocab_def G_def [symmetric])
    have "\<forall>q\<in>set (fst (attemptLoop (speciesAttempt G rnd) ([], 0, c))).
            \<exists>list correctEntry ds.
               list \<in> snd ` set G
             \<and> mset (correctEntry # ds) \<subseteq># mset list
             \<and> (\<forall>d\<in>set ds. sp_taxonId d \<noteq> sp_taxonId correctEntry)
             \<and> length ds = neededDistractors
             \<and> mset (v_options q) = mset (map speciesOption (correctEntry # ds))
             \<and> answerKey (v_correct q) = digits_of (sp_taxonId correctEntry)"
    proof (rule attemptLoop_all)
      fix c0 q0 c1
      assume "speciesAttempt G rnd c0 = (Some q0, c1)"
      then show "\<exists>list correctEntry ds.
               list \<in> snd ` set G
             \<and> mset (correctEntry # ds) \<subseteq># mset list
             \<and> (\<forall>d\<in>set ds. sp_taxonId d \<noteq> sp_taxonId correctEntry)
             \<and> length ds = neededDistractors
             \<and> mset (v_options q0) = mset (map speciesOption (correctEntry # ds))
             \<and> answerKey (v_correct q0) = digits_of (sp_taxonId correctEntry)"
        using False by (rule speciesAttempt_shape)
    qed simp
    then obtain list correctEntry ds where
          "list \<in> snd ` set G"
      and r: "mset (correctEntry # ds) \<subseteq># mset list"
             "\<forall>d\<in>set ds. sp_taxonId d \<noteq> sp_taxonId correctEntry"
             "length ds = neededDistractors"
             "mset (v_options q) = mset (map speciesOption (correctEntry # ds))"
             "answerKey (v_correct q) = digits_of (sp_taxonId correctEntry)"
      using assms unfolding res by blast
    then have "list \<in> snd ` set vocabByGroup" using sub by blast
    with r show ?thesis by blast
  qed
qed

lemma species_question_options:
  assumes "q \<in> set (fst (buildSpeciesQuizQuestionsFromVocab vocabByGroup rnd c))"
  shows "length (v_options q) = OPTIONS_PER_QUESTION"
    and "count_list (map opt_key (v_options q)) (answerKey (v_correct q)) = 1"
    and "\<forall>list\<in>snd ` set vocabByGroup. distinct (map sp_taxonId list)
           \<Longrightarrow> distinct (map opt_key (v_options q))"
    and "\<forall>list\<in>snd ` set vocabByGroup. distinct (map sp_scientificName list)
           \<Longrightarrow> distinct (map labelSci (v_options q))"
proof -
  obtain list correctEntry ds where
        l: "list \<in> snd ` set vocabByGroup"
    and sub: "mset (correctEntry # ds) \<subseteq># mset list"
    and other: "\<forall>d\<in>set ds. sp_taxonId d \<noteq> sp_taxonId correctEntry"
    and len: "length ds = neededDistractors"
    and opts: "mset (v_options q) = mset (map speciesOption (correctEntry # ds))"
    and key: "answerKey (v_correct q) = digits_of (sp_taxonId correctEntry)"
    using species_question_shape [OF assms] by blast
  have "size (mset (v_options q)) = size (mset (map speciesOption (correctEntry # ds)))"
    using opts by simp
  then show "length (v_options q) = OPTIONS_PER_QUESTION"
    using len by (simp add: neededDistractors_def OPTIONS_PER_QUESTION_def)
  have k: "map opt_key (map speciesOption xs) = map (\<lambda>e. digits_of (sp_taxonId e)) xs" for xs
    by (simp add: speciesOption_def del: digits_of.simps)
  have n: "map labelSci (map speciesOption xs) = map sp_scientificName xs" for xs
    by (simp add: speciesOption_def)
  have "mset (map opt_key (v_options q))
          = mset (map opt_key (map speciesOption (correctEntry # ds)))"
    by (simp only: mset_map opts)
  then have keys: "mset (map opt_key (v_options q))
                = mset (map (\<lambda>e. digits_of (sp_taxonId e)) (correctEntry # ds))"
    unfolding k .
  have "mset (map labelSci (v_options q))
          = mset (map labelSci (map speciesOption (correctEntry # ds)))"
    by (simp only: mset_map opts)
  then have names: "mset (map labelSci (v_options q))
                = mset (map sp_scientificName (correctEntry # ds))"
    unfolding n .
  have "digits_of (sp_taxonId correctEntry) \<notin> (\<lambda>e. digits_of (sp_taxonId e)) ` set ds"
  proof
    assume "digits_of (sp_taxonId correctEntry) \<in> (\<lambda>e. digits_of (sp_taxonId e)) ` set ds"
    then obtain d where d: "d \<in> set ds"
      and e: "digits_of (sp_taxonId correctEntry) = digits_of (sp_taxonId d)"
      by (rule imageE)
    from e have "sp_taxonId correctEntry = sp_taxonId d" by (rule digits_of_inj)
    with other d show False by force
  qed
  then have "count (mset (map (\<lambda>e. digits_of (sp_taxonId e)) ds))
               (digits_of (sp_taxonId correctEntry)) = 0"
    by (simp add: count_eq_zero_iff del: digits_of.simps)
  then have "count (mset (map (\<lambda>e. digits_of (sp_taxonId e)) (correctEntry # ds)))
               (digits_of (sp_taxonId correctEntry)) = 1"
    by (simp del: digits_of.simps)
  then show "count_list (map opt_key (v_options q)) (answerKey (v_correct q)) = 1"
    unfolding key count_mset [symmetric] keys .
  {
    assume "\<forall>list\<in>snd ` set vocabByGroup. distinct (map sp_taxonId list)"
    then have "distinct (map sp_taxonId list)" using l by blast
    then have "distinct (map sp_taxonId (correctEntry # ds))"
      using sub by (rule distinct_map_submset [rotated])
    moreover have "inj_on digits_of (set (map sp_taxonId (correctEntry # ds)))"
      by (rule inj_onI) (rule digits_of_inj)
    ultimately have "distinct (map digits_of (map sp_taxonId (correctEntry # ds)))"
      unfolding distinct_map [of digits_of] by (rule conjI)
    then have "distinct (map (\<lambda>e. digits_of (sp_taxonId e)) (correctEntry # ds))"
      by (simp add: comp_def del: digits_of.simps)
    then show "distinct (map opt_key (v_options q))"
      using mset_eq_imp_distinct_iff [OF keys] by (simp only:)
  }
  {
    assume "\<forall>list\<in>snd ` set vocabByGroup. distinct (map sp_scientificName list)"
    then have "distinct (map sp_scientificName list)" using l by blast
    then have "distinct (map sp_scientificName (correctEntry # ds))"
      using sub by (rule distinct_map_submset [rotated])
    then show "distinct (map labelSci (v_options q))"
      using mset_eq_imp_distinct_iff [OF names] by (simp only:)
  }
qed

section \<open>Claims about the question generator\<close>

text \<open>
  C1 (as amended). Every question produced by \<^verbatim>\<open>buildQuizQuestions\<close> of app.js has exactly
  min(OPTIONS_PER_QUESTION, number of groups at the active level) options, hence exactly
  four whenever at least four distinct groups exist; the labels of its options are
  pairwise distinct, and the label of the correct answer appears exactly once among them.
  Every question produced by \<^verbatim>\<open>buildSpeciesQuizQuestionsFromVocab\<close> has exactly
  OPTIONS_PER_QUESTION options, and the key of the correct answer, by which a chosen
  answer is checked, appears exactly once among the keys of its options. The keys of the
  options are pairwise distinct when no taxon id occurs twice in a group of the
  vocabulary, and their scientific names when no scientific name occurs twice in a group.
\<close>

theorem options_per_question:
  "(q \<in> set (buildQuizQuestions lvl rnd c obsList) \<longrightarrow>
       length (options q) = min OPTIONS_PER_QUESTION (length (collapseGroups lvl obsList))
     \<and> distinct (map (optionLabel lvl) (options q))
     \<and> count_list (map (optionLabel lvl) (options q)) (optionLabel lvl (correct q)) = 1)
   \<and> (vq \<in> set (fst (buildSpeciesQuizQuestionsFromVocab vocabByGroup rnd c)) \<longrightarrow>
       length (v_options vq) = OPTIONS_PER_QUESTION
     \<and> count_list (map opt_key (v_options vq)) (answerKey (v_correct vq)) = 1
     \<and> ((\<forall>list\<in>snd ` set vocabByGroup. distinct (map sp_taxonId list))
          \<longrightarrow> distinct (map opt_key (v_options vq)))
     \<and> ((\<forall>list\<in>snd ` set vocabByGroup. distinct (map sp_scientificName list))
          \<longrightarrow> distinct (map labelSci (v_options vq))))"
proof (intro conjI impI)
  let ?G = "collapseGroups lvl obsList"
  assume a: "q \<in> set (buildQuizQuestions lvl rnd c obsList)"
  obtain g c' where g: "g \<in> set ?G" and q: "q = fst (buildQuestion rnd c' ?G g)"
    using question_from_group [OF a] by blast
  have ok: "groupsOk lvl obsList ?G" by (rule collapseGroups_ok)
  have all: "length (options q) = min OPTIONS_PER_QUESTION (length ?G)
         \<and> distinct (map (optionLabel lvl) (options q))
         \<and> count_list (map (optionLabel lvl) (options q)) (optionLabel lvl (correct q)) = 1"
    unfolding q using buildQuestion_labels [OF ok g, of rnd c'] by simp
  from all show "length (options q) = min OPTIONS_PER_QUESTION (length ?G)" by blast
  from all show "distinct (map (optionLabel lvl) (options q))" by blast
  from all show "count_list (map (optionLabel lvl) (options q)) (optionLabel lvl (correct q)) = 1"
    by blast
next
  assume "vq \<in> set (fst (buildSpeciesQuizQuestionsFromVocab vocabByGroup rnd c))"
  then show "length (v_options vq) = OPTIONS_PER_QUESTION"
    by (rule species_question_options(1))
next
  assume "vq \<in> set (fst (buildSpeciesQuizQuestionsFromVocab vocabByGroup rnd c))"
  then show "count_list (map opt_key (v_options vq)) (answerKey (v_correct vq)) = 1"
    by (rule species_question_options(2))
next
  assume "vq \<in> set (fst (buildSpeciesQuizQuestionsFromVocab vocabByGroup rnd c))"
    and "\<forall>list\<in>snd ` set vocabByGroup. distinct (map sp_taxonId list)"
  then show "distinct (map opt_key (v_options vq))"
    by (rule species_question_options(3))
next
  assume "vq \<in> set (fst (buildSpeciesQuizQuestionsFromVocab vocabByGroup rnd c))"
    and "\<forall>list\<in>snd ` set vocabByGroup. distinct (map sp_scientificName list)"
  then show "distinct (map labelSci (v_options vq))"
    by (rule species_question_options(4))
qed

theorem options_per_question_witness:
  "hd (buildQuizQuestions Species zero_rnd 0 fiveInsects)
     \<in> set (buildQuizQuestions Species zero_rnd 0 fiveInsects)
   \<and> length (collapseGroups Species fiveInsects) = 5
   \<and> length (options (hd (buildQuizQuestions Species zero_rnd 0 fiveInsects))) = 4
   \<and> distinct (map (optionLabel Species)
        (options (hd (buildQuizQuestions Species zero_rnd 0 fiveInsects))))
   \<and> count_list (map (optionLabel Species)
          (options (hd (buildQuizQuestions Species zero_rnd 0 fiveInsects))))
        (optionLabel Species (correct (hd (buildQuizQuestions Species zero_rnd 0 fiveInsects)))) = 1
   \<and> hd (fst (buildSpeciesQuizQuestionsFromVocab fourSpecies zero_rnd 0))
        \<in> set (fst (buildSpeciesQuizQuestionsFromVocab fourSpecies zero_rnd 0))
   \<and> list_all (distinct \<circ> map sp_taxonId) (map snd fourSpecies)
   \<and> list_all (distinct \<circ> map sp_scientificName) (map snd fourSpecies)
   \<and> length (v_options (hd (fst (buildSpeciesQuizQuestionsFromVocab fourSpecies zero_rnd 0)))) = 4
   \<and> count_list
        (map opt_key (v_options (hd (fst (buildSpeciesQuizQuestionsFromVocab fourSpecies zero_rnd 0)))))
        (answerKey (v_correct (hd (fst (buildSpeciesQuizQuestionsFromVocab fourSpecies zero_rnd 0))))) = 1
   \<and> distinct
        (map opt_key (v_options (hd (fst (buildSpeciesQuizQuestionsFromVocab fourSpecies zero_rnd 0)))))
   \<and> distinct
        (map labelSci (v_options (hd (fst (buildSpeciesQuizQuestionsFromVocab fourSpecies zero_rnd 0)))))"
proof -
  let ?q = "hd (buildQuizQuestions Species zero_rnd 0 fiveInsects)"
  let ?v = "hd (fst (buildSpeciesQuizQuestionsFromVocab fourSpecies zero_rnd 0))"
  have mem: "?q \<in> set (buildQuizQuestions Species zero_rnd 0 fiveInsects)" by code_simp
  have len: "length (collapseGroups Species fiveInsects) = 5" by code_simp
  have vmem: "?v \<in> set (fst (buildSpeciesQuizQuestionsFromVocab fourSpecies zero_rnd 0))"
    by code_simp
  have ids: "list_all (distinct \<circ> map sp_taxonId) (map snd fourSpecies)" by code_simp
  have names: "list_all (distinct \<circ> map sp_scientificName) (map snd fourSpecies)" by code_simp
  from ids have ids': "\<forall>list\<in>snd ` set fourSpecies. distinct (map sp_taxonId list)"
    by (simp add: list_all_iff)
  from names have names': "\<forall>list\<in>snd ` set fourSpecies. distinct (map sp_scientificName list)"
    by (simp add: list_all_iff)
  note inst = options_per_question [of ?q Species zero_rnd 0 fiveInsects ?v fourSpecies]
  from inst mem len
  have app: "length (options ?q) = 4
     \<and> distinct (map (optionLabel Species) (options ?q))
     \<and> count_list (map (optionLabel Species) (options ?q)) (optionLabel Species (correct ?q)) = 1"
    by (simp add: OPTIONS_PER_QUESTION_def)
  from inst vmem ids' names'
  have voc: "length (v_options ?v) = 4
     \<and> count_list (map opt_key (v_options ?v)) (answerKey (v_correct ?v)) = 1
     \<and> distinct (map opt_key (v_options ?v))
     \<and> distinct (map labelSci (v_options ?v))"
    by (simp add: OPTIONS_PER_QUESTION_def)
  from mem len app vmem ids names voc show ?thesis by blast
qed

text \<open>
  The claim as stated fails in both generators. In app.js a question has fewer than four
  options when fewer than four groups exist: a single observation gives one question
  whose only option is the correct answer. In the vocabulary builder the options are not
  pairwise distinct when a group lists a taxon twice, because the pool leaves out only
  the entries that have the taxon id of the correct answer: from a group with the taxon
  ids 1, 2, 2, 3 and draws that are all zero, the options have the keys 2, 2, 3, 1.
\<close>

theorem options_per_question_counterexample:
  "buildQuizQuestions Species zero_rnd 0 loneBee
     = [\<lparr> correct = sampleObs 1 ''Apis mellifera'' (Some ''Apidae'') (Some ''Insecta''),
          options = [sampleObs 1 ''Apis mellifera'' (Some ''Apidae'') (Some ''Insecta'')] \<rparr>]
   \<and> length (options (hd (buildQuizQuestions Species zero_rnd 0 loneBee))) = 1
   \<and> OPTIONS_PER_QUESTION = 4
   \<and> map sp_taxonId (concat (map snd repeatedTaxon)) = [1, 2, 2, 3]
   \<and> length (fst (buildSpeciesQuizQuestionsFromVocab repeatedTaxon zero_rnd 0)) = 10
   \<and> map opt_key (v_options (hd (fst (buildSpeciesQuizQuestionsFromVocab repeatedTaxon zero_rnd 0))))
       = [''2'', ''2'', ''3'', ''1'']"
  by code_simp

lemma collapseGroups_distinct: "distinct (collapseGroups lvl obsList)"
proof -
  have "distinct (map label (collapseGroups lvl obsList))"
    using collapseGroups_ok [of lvl obsList] by (simp add: groupsOk_def)
  then show ?thesis by (rule distinct_map [THEN iffD1, THEN conjunct1])
qed

lemma chosenGroups_all:
  "length groups \<le> QUESTIONS_COUNT \<Longrightarrow> fst (chosenGroups rnd c groups) = groups"
  by (simp add: chosenGroups_def pickRandomSubset_def)

lemma chosenGroups_shuffled:
  "QUESTIONS_COUNT < length groups \<Longrightarrow>
     fst (chosenGroups rnd c groups) = take QUESTIONS_COUNT (fst (shuffleArray rnd c groups))"
  by (simp add: chosenGroups_def pickRandomSubset_def case_prod_beta)

text \<open>
  C2 (as amended). For every observation list, \<^verbatim>\<open>buildQuizQuestions\<close> of app.js returns
  exactly min(QUESTIONS_COUNT, number of distinct groups at the active level) questions.
  The correct answers are drawn without replacement: all the groups when there are at
  most QUESTIONS_COUNT, otherwise the first QUESTIONS_COUNT of a Fisher-Yates shuffle of
  the groups; they are the observations of a sub-multiset of the groups, so their labels
  are pairwise distinct. The shuffle is uniform in this sense: every arrangement of the
  groups is the result of some sequence of draws, and two sequences that give the same
  arrangement consist of the same draws, so equally likely draws give equally likely
  arrangements. The other generators of the repository promise less: the hybrid
  \<^verbatim>\<open>buildQuizQuestions\<close> returns at most that many questions, and the species builder of
  the vocabulary quiz at most QUESTIONS_COUNT.
\<close>

theorem question_count:
  "length (buildQuizQuestions lvl rnd c obsList)
     = min QUESTIONS_COUNT (card (groupLabels lvl obsList))
   \<and> card (groupLabels lvl obsList) = length (collapseGroups lvl obsList)
   \<and> distinct (map (optionLabel lvl) (map correct (buildQuizQuestions lvl rnd c obsList)))
   \<and> mset (map correct (buildQuizQuestions lvl rnd c obsList))
        \<subseteq># mset (map obs (collapseGroups lvl obsList))
   \<and> (length (collapseGroups lvl obsList) \<le> QUESTIONS_COUNT \<longrightarrow>
        map correct (buildQuizQuestions lvl rnd c obsList) = map obs (collapseGroups lvl obsList))
   \<and> (QUESTIONS_COUNT < length (collapseGroups lvl obsList) \<longrightarrow>
        map correct (buildQuizQuestions lvl rnd c obsList)
          = map obs (take QUESTIONS_COUNT (fst (shuffleArray rnd c (collapseGroups lvl obsList)))))
   \<and> (\<forall>ys. mset ys = mset (collapseGroups lvl obsList) \<longrightarrow>
          (\<exists>r. fst (shuffleArray r c (collapseGroups lvl obsList)) = ys))
   \<and> (\<forall>r r' k. fst (shuffleArray r c (collapseGroups lvl obsList))
                   = fst (shuffleArray r' c (collapseGroups lvl obsList))
                 \<and> k < length (collapseGroups lvl obsList) - 1 \<longrightarrow>
          random_below r (c + k) (length (collapseGroups lvl obsList) - k)
            = random_below r' (c + k) (length (collapseGroups lvl obsList) - k))
   \<and> length (buildQuizQuestionsHybrid lvl ext rnd c obsListH)
        \<le> min QUESTIONS_COUNT (length (collapseGroupsH lvl obsListH))
   \<and> length (fst (buildSpeciesQuizQuestionsFromVocab vocabByGroup rnd c)) \<le> QUESTIONS_COUNT"
proof -
  let ?G = "collapseGroups lvl obsList"
  let ?chosen = "fst (chosenGroups rnd c ?G)"
  have ok: "groupsOk lvl obsList ?G" by (rule collapseGroups_ok)
  have cor: "map correct (buildQuizQuestions lvl rnd c obsList) = map obs ?chosen"
    unfolding buildQuizQuestions_eq by (rule buildQuestions_correct)
  have "length (buildQuizQuestions lvl rnd c obsList) = length ?chosen"
    unfolding buildQuizQuestions_eq by simp
  then have len: "length (buildQuizQuestions lvl rnd c obsList)
                    = min QUESTIONS_COUNT (card (groupLabels lvl obsList))"
    by (simp add: chosenGroups_length length_collapseGroups)
  have card: "card (groupLabels lvl obsList) = length ?G" by (simp add: length_collapseGroups)
  have "distinct (map label ?chosen)"
    using chosenGroups_mset ok unfolding groupsOk_def by (blast intro: distinct_map_submset)
  then have dis: "distinct (map (optionLabel lvl) (map correct (buildQuizQuestions lvl rnd c obsList)))"
    unfolding cor chosen_labels [OF ok] .
  have "mset (map obs ?chosen) \<subseteq># mset (map obs ?G)"
    using chosenGroups_mset [of rnd c ?G] by (simp add: image_mset_subseteq_mono)
  then have sub: "mset (map correct (buildQuizQuestions lvl rnd c obsList)) \<subseteq># mset (map obs ?G)"
    using cor by simp
  have all: "length ?G \<le> QUESTIONS_COUNT \<longrightarrow>
        map correct (buildQuizQuestions lvl rnd c obsList) = map obs ?G"
    using cor by (simp add: chosenGroups_all)
  have shuf: "QUESTIONS_COUNT < length ?G \<longrightarrow>
        map correct (buildQuizQuestions lvl rnd c obsList)
          = map obs (take QUESTIONS_COUNT (fst (shuffleArray rnd c ?G)))"
    using cor by (simp add: chosenGroups_shuffled)
  have onto: "\<forall>ys. mset ys = mset ?G \<longrightarrow> (\<exists>r. fst (shuffleArray r c ?G) = ys)"
    using shuffleArray_onto by blast
  have inj: "\<forall>r r' k. fst (shuffleArray r c ?G) = fst (shuffleArray r' c ?G)
                 \<and> k < length ?G - 1 \<longrightarrow>
          random_below r (c + k) (length ?G - k) = random_below r' (c + k) (length ?G - k)"
    using shuffleArray_inj [OF collapseGroups_distinct] by blast
  have hyb: "length (buildQuizQuestionsHybrid lvl ext rnd c obsListH)
        \<le> min QUESTIONS_COUNT (length (collapseGroupsH lvl obsListH))"
    by (rule hybrid_count)
  have voc: "length (fst (buildSpeciesQuizQuestionsFromVocab vocabByGroup rnd c)) \<le> QUESTIONS_COUNT"
    by (simp add: buildSpeciesQuizQuestionsFromVocab_def Let_def attemptLoop_start)
  from len card dis sub all shuf onto inj hyb voc show ?thesis by blast
qed

theorem question_count_witness:
  "length (buildQuizQuestions Species zero_rnd 0 twelveBeetles) = 10
   \<and> card (groupLabels Species twelveBeetles) = 12
   \<and> QUESTIONS_COUNT < length (collapseGroups Species twelveBeetles)
   \<and> map correct (buildQuizQuestions Species zero_rnd 0 twelveBeetles)
       = map obs (take QUESTIONS_COUNT
                   (fst (shuffleArray zero_rnd 0 (collapseGroups Species twelveBeetles))))
   \<and> length (buildQuizQuestions Species zero_rnd 0 mixedObs) = 5
   \<and> length (collapseGroups Species mixedObs) \<le> QUESTIONS_COUNT
   \<and> map correct (buildQuizQuestions Species zero_rnd 0 mixedObs)
       = map obs (collapseGroups Species mixedObs)
   \<and> distinct (map (optionLabel Species)
        (map correct (buildQuizQuestions Species zero_rnd 0 twelveBeetles)))
   \<and> mset (rev (collapseGroups Species mixedObs)) = mset (collapseGroups Species mixedObs)
   \<and> (\<exists>r. fst (shuffleArray r 0 (collapseGroups Species mixedObs))
              = rev (collapseGroups Species mixedObs))
   \<and> fst (shuffleArray zero_rnd 0 (collapseGroups Species mixedObs))
       = fst (shuffleArray falling_rnd 0 (collapseGroups Species mixedObs))
   \<and> zero_rnd 2 \<noteq> falling_rnd 2
   \<and> random_below zero_rnd 2 3 = random_below falling_rnd 2 3
   \<and> length (buildQuizQuestionsHybrid Species noExternal zero_rnd 0 fiveInsectsH) = 5"
proof -
  have c12: "card (groupLabels Species twelveBeetles) = 12" by code_simp
  have c5: "card (groupLabels Species mixedObs) = 5" by code_simp
  have h5: "length (buildQuizQuestionsHybrid Species noExternal zero_rnd 0 fiveInsectsH) = 5"
    by code_simp
  note a = question_count [of Species zero_rnd 0 twelveBeetles noExternal fiveInsectsH fourSpecies]
  note b = question_count [of Species zero_rnd 0 mixedObs noExternal fiveInsectsH fourSpecies]
  from a c12 have a1: "length (buildQuizQuestions Species zero_rnd 0 twelveBeetles) = 10"
    and a2: "QUESTIONS_COUNT < length (collapseGroups Species twelveBeetles)"
    by (simp_all add: QUESTIONS_COUNT_def)
  from a a2 have a3: "map correct (buildQuizQuestions Species zero_rnd 0 twelveBeetles)
       = map obs (take QUESTIONS_COUNT
                   (fst (shuffleArray zero_rnd 0 (collapseGroups Species twelveBeetles))))"
    by blast
  from a have a4: "distinct (map (optionLabel Species)
        (map correct (buildQuizQuestions Species zero_rnd 0 twelveBeetles)))" by blast
  from b c5 have b1: "length (buildQuizQuestions Species zero_rnd 0 mixedObs) = 5"
    and b2: "length (collapseGroups Species mixedObs) \<le> QUESTIONS_COUNT"
    by (simp_all add: QUESTIONS_COUNT_def)
  from b b2 have b3: "map correct (buildQuizQuestions Species zero_rnd 0 mixedObs)
       = map obs (collapseGroups Species mixedObs)" by blast
  have m: "mset (rev (collapseGroups Species mixedObs)) = mset (collapseGroups Species mixedObs)"
    by simp
  from b m have b4: "\<exists>r. fst (shuffleArray r 0 (collapseGroups Species mixedObs))
              = rev (collapseGroups Species mixedObs)" by blast
  have l5: "length (collapseGroups Species mixedObs) = 5" by code_simp
  have same: "fst (shuffleArray zero_rnd 0 (collapseGroups Species mixedObs))
       = fst (shuffleArray falling_rnd 0 (collapseGroups Species mixedObs))" by code_simp
  have ne: "zero_rnd 2 \<noteq> falling_rnd 2" by code_simp
  from b have "\<forall>r r' k. fst (shuffleArray r 0 (collapseGroups Species mixedObs))
                   = fst (shuffleArray r' 0 (collapseGroups Species mixedObs))
                 \<and> k < length (collapseGroups Species mixedObs) - 1 \<longrightarrow>
          random_below r (0 + k) (length (collapseGroups Species mixedObs) - k)
            = random_below r' (0 + k) (length (collapseGroups Species mixedObs) - k)" by blast
  then have "fst (shuffleArray zero_rnd 0 (collapseGroups Species mixedObs))
                   = fst (shuffleArray falling_rnd 0 (collapseGroups Species mixedObs))
                 \<and> 2 < length (collapseGroups Species mixedObs) - 1 \<longrightarrow>
          random_below zero_rnd (0 + 2) (length (collapseGroups Species mixedObs) - 2)
            = random_below falling_rnd (0 + 2) (length (collapseGroups Species mixedObs) - 2)"
    by blast
  with same l5 have draws: "random_below zero_rnd 2 3 = random_below falling_rnd 2 3"
    by (simp add: numeral_2_eq_2)
  from a1 c12 a2 a3 b1 b2 b3 a4 m b4 same ne draws h5 show ?thesis by blast
qed

text \<open>
  The claim as stated fails on the other generators. The vocabulary builder draws the
  correct entry anew in every attempt: from four species and draws that are all zero it
  builds ten questions, each with the first species as the correct answer. The hybrid
  \<^verbatim>\<open>buildQuizQuestions\<close> skips a group that has no broad group: one observation without
  broad group is one group and gives no question.
\<close>

theorem question_count_counterexample:
  "map (answerKey \<circ> v_correct) (fst (buildSpeciesQuizQuestionsFromVocab fourSpecies zero_rnd 0))
     = replicate 10 ''1''
   \<and> length (concat (map snd fourSpecies)) = 4
   \<and> buildQuizQuestionsHybrid Species noExternal zero_rnd 0 loneBeeH = []
   \<and> length (collapseGroupsH Species loneBeeH) = 1"
  by code_simp

lemma appjs_fallback:
  assumes sel: "g \<in> set (fst (chosenGroups rnd c (collapseGroups lvl obsList)))"
      and few: "length (sameBroadCandidates (collapseGroups lvl obsList) g) < OPTIONS_PER_QUESTION - 1"
  shows "\<exists>q\<in>set (buildQuizQuestions lvl rnd c obsList). \<exists>ds.
           correct q = obs g
         \<and> mset (options q) = mset (map obs (g # ds))
         \<and> mset ds \<subseteq># mset (otherGroups (collapseGroups lvl obsList) g)
         \<and> length ds = min (OPTIONS_PER_QUESTION - 1) (length (otherGroups (collapseGroups lvl obsList) g))
         \<and> label g \<notin> label ` set ds"
proof -
  let ?G = "collapseGroups lvl obsList"
  obtain c' where q: "fst (buildQuestion rnd c' ?G g) \<in> set (buildQuizQuestions lvl rnd c obsList)"
    unfolding buildQuizQuestions_eq using buildQuestions_for [OF sel] by blast
  let ?q = "fst (buildQuestion rnd c' ?G g)"
  let ?ds = "fst (distractorGroups rnd c' ?G g)"
  have cand: "candidateGroups ?G g = otherGroups ?G g" using few by (simp add: candidateGroups_def)
  obtain sh where sh: "options ?q = map obs sh" "mset sh = mset (g # ?ds)"
    using buildQuestion_options by blast
  have "mset (options ?q) = mset (map obs (g # ?ds))"
    using sh by (metis mset_map)
  moreover have "mset ?ds \<subseteq># mset (otherGroups ?G g)"
    using distractorGroups_mset [of rnd c' ?G g] cand by simp
  moreover have "length ?ds = min (OPTIONS_PER_QUESTION - 1) (length (otherGroups ?G g))"
    using distractorGroups_length [of rnd c' ?G g] cand by simp
  moreover have "label g \<notin> label ` set ?ds"
    using distractorGroups_set [of rnd c' ?G g] cand by (auto simp: otherGroups_def)
  moreover have "correct ?q = obs g" by (rule buildQuestion_correct)
  ultimately show ?thesis using q by blast
qed

text \<open>
  C3 (as amended). In \<^verbatim>\<open>buildQuizQuestions\<close> of app.js, for each selected group \<open>g\<close>, if
  fewer than OPTIONS_PER_QUESTION - 1 other groups share its broad group, a question is
  still produced for \<open>g\<close>, and its distractors are drawn from all the other groups,
  whatever their broad group: they are a sub-multiset of the groups whose label differs
  from the label of \<open>g\<close>, three of them or all of them when fewer than three exist. The
  hybrid \<^verbatim>\<open>buildQuizQuestions\<close> has no fallback: at species and family level a group with
  fewer than OPTIONS_PER_QUESTION - 1 other groups of its broad group is skipped, and no
  question has it as the correct answer.
\<close>

theorem fallback_distractors:
  "(g \<in> set (fst (chosenGroups rnd c (collapseGroups lvl obsList)))
      \<and> length (sameBroadCandidates (collapseGroups lvl obsList) g) < OPTIONS_PER_QUESTION - 1
    \<longrightarrow> (\<exists>q\<in>set (buildQuizQuestions lvl rnd c obsList). \<exists>ds.
           correct q = obs g
         \<and> mset (options q) = mset (map obs (g # ds))
         \<and> mset ds \<subseteq># mset (otherGroups (collapseGroups lvl obsList) g)
         \<and> length ds = min (OPTIONS_PER_QUESTION - 1) (length (otherGroups (collapseGroups lvl obsList) g))
         \<and> label g \<notin> label ` set ds))
   \<and> (lvl \<noteq> Genus \<and> gH \<in> set (collapseGroupsH lvl obsListH)
      \<and> length (projectCandidates (collapseGroupsH lvl obsListH) gH) < OPTIONS_PER_QUESTION - 1
    \<longrightarrow> (\<forall>q\<in>set (buildQuizQuestionsHybrid lvl ext rnd c obsListH). h_correct q \<noteq> h_obs gH))"
  using appjs_fallback [of g rnd c lvl obsList] hybrid_skips [of lvl gH obsListH ext rnd c]
  by blast

theorem fallback_distractors_witness:
  "hd (collapseGroups Species mixedObs)
     \<in> set (fst (chosenGroups zero_rnd 0 (collapseGroups Species mixedObs)))
   \<and> length (sameBroadCandidates (collapseGroups Species mixedObs)
        (hd (collapseGroups Species mixedObs))) = 1
   \<and> (\<exists>q\<in>set (buildQuizQuestions Species zero_rnd 0 mixedObs). \<exists>ds.
         correct q = obs (hd (collapseGroups Species mixedObs))
       \<and> mset (options q) = mset (map obs (hd (collapseGroups Species mixedObs) # ds))
       \<and> mset ds \<subseteq># mset (otherGroups (collapseGroups Species mixedObs)
                           (hd (collapseGroups Species mixedObs)))
       \<and> length ds = 3)
   \<and> map obsId (options (hd (buildQuizQuestions Species zero_rnd 0 mixedObs))) = [6, 7, 8, 1]
   \<and> last (collapseGroupsH Species insectsAndBirdsH) \<in> set (collapseGroupsH Species insectsAndBirdsH)
   \<and> length (projectCandidates (collapseGroupsH Species insectsAndBirdsH)
        (last (collapseGroupsH Species insectsAndBirdsH))) = 2
   \<and> list_all (\<lambda>q. h_correct q \<noteq> h_obs (last (collapseGroupsH Species insectsAndBirdsH)))
        (buildQuizQuestionsHybrid Species noExternal zero_rnd 0 insectsAndBirdsH)
   \<and> map (h_obsId \<circ> h_correct)
        (buildQuizQuestionsHybrid Species noExternal zero_rnd 0 insectsAndBirdsH)
       = [Some 2, Some 3, Some 4, Some 5, Some 1]"
proof -
  let ?G = "collapseGroups Species mixedObs"
  let ?H = "collapseGroupsH Species insectsAndBirdsH"
  have sel: "hd ?G \<in> set (fst (chosenGroups zero_rnd 0 ?G))" by code_simp
  have few: "length (sameBroadCandidates ?G (hd ?G)) = 1" by code_simp
  have others: "length (otherGroups ?G (hd ?G)) = 4" by code_simp
  have opts: "map obsId (options (hd (buildQuizQuestions Species zero_rnd 0 mixedObs))) = [6, 7, 8, 1]"
    by code_simp
  have few': "length (sameBroadCandidates ?G (hd ?G)) < OPTIONS_PER_QUESTION - 1"
    using few by (simp add: OPTIONS_PER_QUESTION_def)
  have hm: "last ?H \<in> set ?H" by code_simp
  have hf: "length (projectCandidates ?H (last ?H)) = 2" by code_simp
  have hf': "length (projectCandidates ?H (last ?H)) < OPTIONS_PER_QUESTION - 1"
    using hf by (simp add: OPTIONS_PER_QUESTION_def)
  have hc: "map (h_obsId \<circ> h_correct)
        (buildQuizQuestionsHybrid Species noExternal zero_rnd 0 insectsAndBirdsH)
       = [Some 2, Some 3, Some 4, Some 5, Some 1]" by code_simp
  note inst = fallback_distractors [of "hd ?G" zero_rnd 0 Species mixedObs "last ?H"
      insectsAndBirdsH noExternal]
  from inst sel few' others
  have one: "\<exists>q\<in>set (buildQuizQuestions Species zero_rnd 0 mixedObs). \<exists>ds.
         correct q = obs (hd ?G)
       \<and> mset (options q) = mset (map obs (hd ?G # ds))
       \<and> mset ds \<subseteq># mset (otherGroups ?G (hd ?G))
       \<and> length ds = 3"
    by (auto simp: OPTIONS_PER_QUESTION_def)
  from inst hm hf'
  have two: "list_all (\<lambda>q. h_correct q \<noteq> h_obs (last ?H))
        (buildQuizQuestionsHybrid Species noExternal zero_rnd 0 insectsAndBirdsH)"
    by (simp add: list_all_iff)
  from sel few one opts hm hf two hc show ?thesis by blast
qed

text \<open>
  The claim as stated fails on the hybrid generator: with two insects and three birds
  every group has fewer than three other groups of its broad group, and no question at
  all is produced.
\<close>

theorem fallback_distractors_counterexample:
  "buildQuizQuestionsHybrid Species noExternal zero_rnd 0 mixedObsH = []
   \<and> length (collapseGroupsH Species mixedObsH) = 5
   \<and> map (length \<circ> projectCandidates (collapseGroupsH Species mixedObsH))
       (collapseGroupsH Species mixedObsH) = [1, 1, 2, 2, 2]
   \<and> OPTIONS_PER_QUESTION - 1 = 3"
  by code_simp

text \<open>
  C4. If at least four groups at the active level have the broad group of the correct
  answer, then every option of the question, so every distractor, has that same broad
  group.
\<close>

theorem same_broad_distractors:
  assumes q: "q \<in> set (buildQuizQuestions lvl rnd c obsList)"
      and b: "broadGroup (correct q) = Some b" "b \<noteq> []"
      and many: "OPTIONS_PER_QUESTION \<le>
                   length (filter (\<lambda>x. g_broadGroup x = Some b) (collapseGroups lvl obsList))"
  shows "\<forall>ob\<in>set (options q). broadGroup ob = Some b"
proof -
  let ?G = "collapseGroups lvl obsList"
  obtain g c' where g: "g \<in> set ?G" and qe: "q = fst (buildQuestion rnd c' ?G g)"
    using question_from_group [OF q] by blast
  have ok: "groupsOk lvl obsList ?G" by (rule collapseGroups_ok)
  then have dl: "distinct (map label ?G)" by (simp add: groupsOk_def)
  have norm: "\<And>x. x \<in> set ?G \<Longrightarrow> g_broadGroup x = js_or (broadGroup (obs x)) None"
    using ok by (simp add: groupsOk_def)
  have "correct q = obs g" unfolding qe by (rule buildQuestion_correct)
  then have gb: "g_broadGroup g = Some b" using norm [OF g] b by (simp add: js_or_def truthy_def)
  have "length (sameBroadCandidates ?G g) = length (filter (\<lambda>x. g_broadGroup x = Some b) ?G) - 1"
    using dl g gb b(2) by (rule sameBroad_count)
  then have "\<not> length (sameBroadCandidates ?G g) < OPTIONS_PER_QUESTION - 1"
    using many by simp
  then have cand: "candidateGroups ?G g = sameBroadCandidates ?G g"
    by (simp add: candidateGroups_def)
  let ?ds = "fst (distractorGroups rnd c' ?G g)"
  obtain sh where sh: "options q = map obs sh" "mset sh = mset (g # ?ds)"
    unfolding qe using buildQuestion_options by blast
  have set_sh: "set sh = set (g # ?ds)" using sh(2) by (metis set_mset_mset)
  have ds: "set ?ds \<subseteq> set (sameBroadCandidates ?G g)"
    using distractorGroups_set [of rnd c' ?G g] cand by simp
  have "\<forall>x\<in>set sh. x \<in> set ?G \<and> g_broadGroup x = Some b"
    using set_sh ds g gb by (auto simp: sameBroadCandidates_def)
  then have "\<forall>x\<in>set sh. broadGroup (obs x) = Some b"
    using norm by (auto simp: js_or_def split: if_splits)
  then show ?thesis using sh(1) by simp
qed

theorem same_broad_distractors_witness:
  "hd (buildQuizQuestions Species zero_rnd 0 fiveInsects)
     \<in> set (buildQuizQuestions Species zero_rnd 0 fiveInsects)
   \<and> broadGroup (correct (hd (buildQuizQuestions Species zero_rnd 0 fiveInsects))) = Some ''Insecta''
   \<and> length (filter (\<lambda>x. g_broadGroup x = Some ''Insecta'') (collapseGroups Species fiveInsects)) = 5
   \<and> list_all (\<lambda>ob. broadGroup ob = Some ''Insecta'')
        (options (hd (buildQuizQuestions Species zero_rnd 0 fiveInsects)))"
proof -
  let ?Q = "buildQuizQuestions Species zero_rnd 0 fiveInsects"
  have mem: "hd ?Q \<in> set ?Q" by code_simp
  have b: "broadGroup (correct (hd ?Q)) = Some ''Insecta''" by code_simp
  have n: "length (filter (\<lambda>x. g_broadGroup x = Some ''Insecta'') (collapseGroups Species fiveInsects)) = 5"
    by code_simp
  have "OPTIONS_PER_QUESTION \<le>
          length (filter (\<lambda>x. g_broadGroup x = Some ''Insecta'') (collapseGroups Species fiveInsects))"
    using n by (simp add: OPTIONS_PER_QUESTION_def)
  from same_broad_distractors [OF mem b _ this]
  have "\<forall>ob\<in>set (options (hd ?Q)). broadGroup ob = Some ''Insecta''" by simp
  then show ?thesis using mem b n by (simp add: list_all_iff)
qed

text \<open>
  C5. The grouping key is the scientific name at species level, the genus name at genus
  level and the family name at family level; the groups have pairwise distinct labels, one
  group for each label that occurs, represented by an observation carrying that label. An
  observation without a label at the active level is dropped: removing it from the input
  changes neither the groups nor the questions, and it is neither the correct answer nor
  an option of any question.
\<close>

theorem grouping_by_level_label:
  "getGroupLabelForObs Species ob = Some (scientificName ob)
   \<and> (genusName ob \<noteq> [] \<longrightarrow> getGroupLabelForObs Genus ob = Some (genusName ob))
   \<and> (truthy (familyName ob) \<longrightarrow> getGroupLabelForObs Family ob = familyName ob)
   \<and> (\<not> truthy (familyName ob) \<longrightarrow> getGroupLabelForObs Family ob = None)
   \<and> distinct (map label (collapseGroups lvl obsList))
   \<and> label ` set (collapseGroups lvl obsList) = groupLabels lvl obsList
   \<and> (\<forall>g\<in>set (collapseGroups lvl obsList).
         obs g \<in> set obsList \<and> getGroupLabelForObs lvl (obs g) = Some (label g))
   \<and> (\<not> truthy (getGroupLabelForObs lvl x) \<longrightarrow>
         collapseGroups lvl (xs @ x # ys) = collapseGroups lvl (xs @ ys)
       \<and> buildQuizQuestions lvl rnd c (xs @ x # ys) = buildQuizQuestions lvl rnd c (xs @ ys)
       \<and> x \<notin> obs ` set (collapseGroups lvl (xs @ x # ys))
       \<and> (\<forall>q\<in>set (buildQuizQuestions lvl rnd c (xs @ x # ys)).
             correct q \<noteq> x \<and> x \<notin> set (options q)))"
proof -
  have lab: "getGroupLabelForObs Species ob = Some (scientificName ob)
     \<and> (genusName ob \<noteq> [] \<longrightarrow> getGroupLabelForObs Genus ob = Some (genusName ob))
     \<and> (truthy (familyName ob) \<longrightarrow> getGroupLabelForObs Family ob = familyName ob)
     \<and> (\<not> truthy (familyName ob) \<longrightarrow> getGroupLabelForObs Family ob = None)"
    by (simp add: getGroupLabelForObs_def js_or_def truthy_def)
  have ok: "groupsOk lvl obsList (collapseGroups lvl obsList)" by (rule collapseGroups_ok)
  have grp: "distinct (map label (collapseGroups lvl obsList))
     \<and> label ` set (collapseGroups lvl obsList) = groupLabels lvl obsList
     \<and> (\<forall>g\<in>set (collapseGroups lvl obsList).
         obs g \<in> set obsList \<and> getGroupLabelForObs lvl (obs g) = Some (label g))"
    using ok collapseGroups_groupLabels [of lvl obsList] by (simp add: groupsOk_def)
  have drop: "\<not> truthy (getGroupLabelForObs lvl x) \<longrightarrow>
         collapseGroups lvl (xs @ x # ys) = collapseGroups lvl (xs @ ys)
       \<and> buildQuizQuestions lvl rnd c (xs @ x # ys) = buildQuizQuestions lvl rnd c (xs @ ys)
       \<and> x \<notin> obs ` set (collapseGroups lvl (xs @ x # ys))
       \<and> (\<forall>q\<in>set (buildQuizQuestions lvl rnd c (xs @ x # ys)).
             correct q \<noteq> x \<and> x \<notin> set (options q))"
  proof
    assume un: "\<not> truthy (getGroupLabelForObs lvl x)"
    have e: "collapseGroups lvl (xs @ x # ys) = collapseGroups lvl (xs @ ys)"
      using un by (rule collapseGroups_drop)
    have q: "buildQuizQuestions lvl rnd c (xs @ x # ys) = buildQuizQuestions lvl rnd c (xs @ ys)"
      by (simp add: buildQuizQuestions_def e)
    have n: "x \<notin> obs ` set (collapseGroups lvl (xs @ x # ys))"
      using un by (rule unlabelled_not_in_groups)
    have "\<forall>q\<in>set (buildQuizQuestions lvl rnd c (xs @ x # ys)).
             correct q \<noteq> x \<and> x \<notin> set (options q)"
      using question_obs_in_groups [of _ lvl rnd c "xs @ x # ys"] n by blast
    with e q n show "collapseGroups lvl (xs @ x # ys) = collapseGroups lvl (xs @ ys)
       \<and> buildQuizQuestions lvl rnd c (xs @ x # ys) = buildQuizQuestions lvl rnd c (xs @ ys)
       \<and> x \<notin> obs ` set (collapseGroups lvl (xs @ x # ys))
       \<and> (\<forall>q\<in>set (buildQuizQuestions lvl rnd c (xs @ x # ys)).
             correct q \<noteq> x \<and> x \<notin> set (options q))" by blast
  qed
  from lab grp drop show ?thesis by blast
qed

theorem grouping_by_level_label_witness:
  "genusName (hd mixedObs) \<noteq> []
   \<and> getGroupLabelForObs Genus (hd mixedObs) = Some ''Apis''
   \<and> truthy (familyName (hd mixedObs))
   \<and> getGroupLabelForObs Family (hd mixedObs) = Some ''Apidae''
   \<and> \<not> truthy (familyName unenriched)
   \<and> getGroupLabelForObs Family unenriched = None
   \<and> buildQuizQuestions Family zero_rnd 0 (mixedObs @ unenriched # fiveInsects)
       = buildQuizQuestions Family zero_rnd 0 (mixedObs @ fiveInsects)
   \<and> list_all (\<lambda>q. correct q \<noteq> unenriched \<and> unenriched \<notin> set (options q))
       (buildQuizQuestions Family zero_rnd 0 (mixedObs @ unenriched # fiveInsects))
   \<and> list_all (\<lambda>g. obs g \<in> set mixedObs \<and> getGroupLabelForObs Family (obs g) = Some (label g))
       (collapseGroups Family mixedObs)
   \<and> length (collapseGroups Family mixedObs) = 4"
proof -
  have g: "genusName (hd mixedObs) \<noteq> []" by code_simp
  have f: "truthy (familyName (hd mixedObs))" by code_simp
  have fam: "familyName (hd mixedObs) = Some ''Apidae''" by code_simp
  have gen: "genusName (hd mixedObs) = ''Apis''" by code_simp
  have nf: "\<not> truthy (familyName unenriched)" by code_simp
  have un: "\<not> truthy (getGroupLabelForObs Family unenriched)" by code_simp
  have len: "length (collapseGroups Family mixedObs) = 4" by code_simp
  show ?thesis
    using grouping_by_level_label [where ob = "hd mixedObs" and lvl = Family
        and obsList = mixedObs and x = unenriched and xs = mixedObs and ys = fiveInsects
        and rnd = zero_rnd and c = 0]
      grouping_by_level_label [where ob = unenriched and lvl = Family
        and obsList = mixedObs and x = unenriched and xs = mixedObs and ys = fiveInsects
        and rnd = zero_rnd and c = 0]
      g f fam gen nf un len
    by (simp add: list_all_iff)
qed

section \<open>Claims about the vocabulary-based builders\<close>

text \<open>
  C10. Each vocabulary-based builder (species, genus, family) runs its sampling loop at
  most MAX_ATTEMPTS = 200 times: the loop is a total function, and the number of attempts
  it returns is at most 200 and the number of questions at most QUESTIONS_COUNT. A builder
  may return fewer than QUESTIONS_COUNT questions although the vocabulary holds at least
  QUESTIONS_COUNT distinct entries: twelve entries in four groups of three leave no group
  with more than three entries, and the builder returns no question.
\<close>

theorem vocab_builders_bounded:
  "snd (buildSpeciesQuizQuestionsFromVocab vocabByGroup rnd c) \<le> MAX_ATTEMPTS
   \<and> length (fst (buildSpeciesQuizQuestionsFromVocab vocabByGroup rnd c)) \<le> QUESTIONS_COUNT
   \<and> snd (buildGenusQuizQuestionsFromVocab genusVocabByGroup rnd c) \<le> MAX_ATTEMPTS
   \<and> length (fst (buildGenusQuizQuestionsFromVocab genusVocabByGroup rnd c)) \<le> QUESTIONS_COUNT
   \<and> snd (buildFamilyQuizQuestionsFromVocab familyVocabByGroup rnd c) \<le> MAX_ATTEMPTS
   \<and> length (fst (buildFamilyQuizQuestionsFromVocab familyVocabByGroup rnd c)) \<le> QUESTIONS_COUNT
   \<and> MAX_ATTEMPTS = 200
   \<and> (\<exists>v r k. QUESTIONS_COUNT \<le> length (concat (map snd v))
         \<and> distinct (map sp_taxonId (concat (map snd v)))
         \<and> length (fst (buildSpeciesQuizQuestionsFromVocab v r k)) < QUESTIONS_COUNT)
   \<and> (\<exists>v r k. QUESTIONS_COUNT \<le> length (concat (map snd v))
         \<and> distinct (map gen_genusName (concat (map snd v)))
         \<and> length (fst (buildGenusQuizQuestionsFromVocab v r k)) < QUESTIONS_COUNT)
   \<and> (\<exists>v r k. QUESTIONS_COUNT \<le> length (concat (map snd v))
         \<and> distinct (map fam_familyName (concat (map snd v)))
         \<and> length (fst (buildFamilyQuizQuestionsFromVocab v r k)) < QUESTIONS_COUNT)"
proof -
  have s: "snd (buildSpeciesQuizQuestionsFromVocab vocabByGroup rnd c) \<le> MAX_ATTEMPTS
   \<and> length (fst (buildSpeciesQuizQuestionsFromVocab vocabByGroup rnd c)) \<le> QUESTIONS_COUNT"
    by (simp add: buildSpeciesQuizQuestionsFromVocab_def Let_def attemptLoop_start)
  have g: "snd (buildGenusQuizQuestionsFromVocab genusVocabByGroup rnd c) \<le> MAX_ATTEMPTS
   \<and> length (fst (buildGenusQuizQuestionsFromVocab genusVocabByGroup rnd c)) \<le> QUESTIONS_COUNT"
    by (simp add: buildGenusQuizQuestionsFromVocab_def Let_def attemptLoop_start)
  have f: "snd (buildFamilyQuizQuestionsFromVocab familyVocabByGroup rnd c) \<le> MAX_ATTEMPTS
   \<and> length (fst (buildFamilyQuizQuestionsFromVocab familyVocabByGroup rnd c)) \<le> QUESTIONS_COUNT"
    by (simp add: buildFamilyQuizQuestionsFromVocab_def Let_def attemptLoop_start)
  have "QUESTIONS_COUNT \<le> length (concat (map snd smallGroups))
         \<and> distinct (map sp_taxonId (concat (map snd smallGroups)))
         \<and> length (fst (buildSpeciesQuizQuestionsFromVocab smallGroups zero_rnd 0)) < QUESTIONS_COUNT"
    by code_simp
  then have es: "\<exists>v r k. QUESTIONS_COUNT \<le> length (concat (map snd v))
         \<and> distinct (map sp_taxonId (concat (map snd v)))
         \<and> length (fst (buildSpeciesQuizQuestionsFromVocab v r k)) < QUESTIONS_COUNT"
    by blast
  have "QUESTIONS_COUNT \<le> length (concat (map snd (buildGenusVocabFromSpecies smallGroups)))
         \<and> distinct (map gen_genusName (concat (map snd (buildGenusVocabFromSpecies smallGroups))))
         \<and> length (fst (buildGenusQuizQuestionsFromVocab (buildGenusVocabFromSpecies smallGroups)
              zero_rnd 0)) < QUESTIONS_COUNT"
    by code_simp
  then have eg: "\<exists>v r k. QUESTIONS_COUNT \<le> length (concat (map snd v))
         \<and> distinct (map gen_genusName (concat (map snd v)))
         \<and> length (fst (buildGenusQuizQuestionsFromVocab v r k)) < QUESTIONS_COUNT"
    by blast
  have "QUESTIONS_COUNT \<le> length (concat (map snd (buildFamilyVocabFromSpecies smallGroups)))
         \<and> distinct (map fam_familyName (concat (map snd (buildFamilyVocabFromSpecies smallGroups))))
         \<and> length (fst (buildFamilyQuizQuestionsFromVocab (buildFamilyVocabFromSpecies smallGroups)
              zero_rnd 0)) < QUESTIONS_COUNT"
    by code_simp
  then have ef: "\<exists>v r k. QUESTIONS_COUNT \<le> length (concat (map snd v))
         \<and> distinct (map fam_familyName (concat (map snd v)))
         \<and> length (fst (buildFamilyQuizQuestionsFromVocab v r k)) < QUESTIONS_COUNT"
    by blast
  have "MAX_ATTEMPTS = 200" by (simp add: MAX_ATTEMPTS_def)
  with s g f es eg ef show ?thesis by blast
qed

theorem vocab_builders_bounded_witness:
  "buildSpeciesQuizQuestionsFromVocab smallGroups zero_rnd 0 = ([], 0)
   \<and> buildSpeciesQuizQuestionsFromVocab withoutPhotos zero_rnd 0 = ([], 200)
   \<and> length (fst (buildSpeciesQuizQuestionsFromVocab oneLargeGroup count_rnd 0)) = 10
   \<and> snd (buildSpeciesQuizQuestionsFromVocab oneLargeGroup count_rnd 0) = 10
   \<and> snd (buildSpeciesQuizQuestionsFromVocab oneLargeGroup count_rnd 0) \<le> MAX_ATTEMPTS
   \<and> length (fst (buildGenusQuizQuestionsFromVocab (buildGenusVocabFromSpecies oneLargeGroup)
        count_rnd 0)) = 10
   \<and> snd (buildGenusQuizQuestionsFromVocab (buildGenusVocabFromSpecies oneLargeGroup) count_rnd 0)
        \<le> MAX_ATTEMPTS
   \<and> length (fst (buildFamilyQuizQuestionsFromVocab (buildFamilyVocabFromSpecies oneLargeGroup)
        count_rnd 0)) = 10
   \<and> snd (buildFamilyQuizQuestionsFromVocab (buildFamilyVocabFromSpecies oneLargeGroup) count_rnd 0)
        \<le> MAX_ATTEMPTS"
proof -
  have a: "buildSpeciesQuizQuestionsFromVocab smallGroups zero_rnd 0 = ([], 0)" by code_simp
  have b: "buildSpeciesQuizQuestionsFromVocab withoutPhotos zero_rnd 0 = ([], 200)" by code_simp
  have c: "length (fst (buildSpeciesQuizQuestionsFromVocab oneLargeGroup count_rnd 0)) = 10
     \<and> snd (buildSpeciesQuizQuestionsFromVocab oneLargeGroup count_rnd 0) = 10" by code_simp
  have d: "length (fst (buildGenusQuizQuestionsFromVocab (buildGenusVocabFromSpecies oneLargeGroup)
        count_rnd 0)) = 10" by code_simp
  have e: "length (fst (buildFamilyQuizQuestionsFromVocab (buildFamilyVocabFromSpecies oneLargeGroup)
        count_rnd 0)) = 10" by code_simp
  show ?thesis
    using vocab_builders_bounded [of oneLargeGroup count_rnd 0
        "buildGenusVocabFromSpecies oneLargeGroup" "buildFamilyVocabFromSpecies oneLargeGroup"]
      a b c d e
    by simp
qed

end
